theory Spec2Isabelle
  imports Complex_Main "HOL-Library.Multiset"
begin

section \<open>Python values used by the service\<close>

text \<open>
  Exceptions of the Python code are values. Every \<open>raise\<close> that a handler of the
  service can meet is one constructor; the handlers catch them at their boundary
  and turn them into a structured failure response.
\<close>

datatype error =
    IndexError
  | KeyError nat
  | AttributeError
  | ImageDecodeError
  | OSError
  | ValueError

text \<open>Python list indexing \<open>xs[i]\<close> for a non-negative index: out of range raises.\<close>

definition py_index :: "'a list \<Rightarrow> nat \<Rightarrow> error + 'a" where
  "py_index xs i = (if i < length xs then Inr (xs ! i) else Inl IndexError)"

text \<open>
  \<open>str.lower()\<close>. Strings of the model are lists of 8-bit characters; the letters
  \<open>A\<close> to \<open>Z\<close> move to \<open>a\<close> to \<open>z\<close>, every other character stays. (Python
  also lowers letters outside ASCII; none of them becomes a letter of an allowed
  extension, so the extension check is not affected.)
\<close>

definition lower_char :: "char \<Rightarrow> char" where
  "lower_char c =
     (case map_of (zip ''ABCDEFGHIJKLMNOPQRSTUVWXYZ'' ''abcdefghijklmnopqrstuvwxyz'') c of
        Some d \<Rightarrow> d
      | None \<Rightarrow> c)"

definition lower :: "string \<Rightarrow> string" where
  "lower s = map lower_char s"

text \<open>
  \<open>s.rsplit(sep, 1)\<close> for a one-character separator: at most one split, made at the
  rightmost occurrence of the separator; a string without the separator comes
  back whole, as a one-element list.
\<close>

definition rsplit1 :: "char \<Rightarrow> string \<Rightarrow> string list" where
  "rsplit1 sep s =
     (if sep \<in> set s
      then [rev (tl (dropWhile (\<lambda>c. c \<noteq> sep) (rev s))), rev (takeWhile (\<lambda>c. c \<noteq> sep) (rev s))]
      else [s])"

section \<open>api.py: configuration\<close>

definition ALLOWED_EXTENSIONS :: "string set" where
  "ALLOWED_EXTENSIONS = {''png'', ''jpg'', ''jpeg'', ''gif''}"

definition IMG_WIDTH :: nat where "IMG_WIDTH = 28"
definition IMG_HEIGHT :: nat where "IMG_HEIGHT = 28"

section \<open>api.py: helper functions\<close>

text \<open>
  \<open>allowed_file\<close>: \<open>'.' in filename and filename.rsplit('.', 1)[1].lower() in
  ALLOWED_EXTENSIONS\<close>. The conjunction is short-circuit, so the indexing is
  evaluated only for a filename that has a dot.
\<close>

definition allowed_file :: "string \<Rightarrow> error + bool" where
  "allowed_file filename =
     (if CHR ''.'' \<in> set filename
      then (case py_index (rsplit1 CHR ''.'' filename) 1 of
              Inl e \<Rightarrow> Inl e
            | Inr ext \<Rightarrow> Inr (lower ext \<in> ALLOWED_EXTENSIONS))
      else Inr False)"

section \<open>api.py: class taxonomy\<close>

definition CANCER_CLASSES :: "nat \<rightharpoonup> string" where
  "CANCER_CLASSES = map_of
     [(0, ''Actinic keratoses and intraepithelial carcinomae''),
      (1, ''Basal Cell Carcinoma''),
      (2, ''Benign Keratosis''),
      (3, ''Dermatofibroma''),
      (4, ''Melanocytic nevus''),
      (5, ''Vascular Lesion''),
      (6, ''Melanoma''),
      (7, ''No Cancer Detected'')]"

record class_info =
  info_severity :: string
  info_description :: string
  info_recommendation :: string

definition CANCER_INFO :: "nat \<rightharpoonup> class_info" where
  "CANCER_INFO = map_of
     [(0, \<lparr>info_severity = ''moderate'',
           info_description = ''Pre-cancerous skin condition that may develop into squamous cell carcinoma.'',
           info_recommendation = ''Consult a dermatologist for evaluation and treatment.''\<rparr>),
      (1, \<lparr>info_severity = ''high'',
           info_description = ''The most common form of skin cancer, grows slowly and rarely spreads.'',
           info_recommendation = ''Immediate medical consultation required for proper treatment.''\<rparr>),
      (2, \<lparr>info_severity = ''low'',
           info_description = ''Non-cancerous growth, usually harmless but should be monitored.'',
           info_recommendation = ''Regular monitoring recommended. Consult dermatologist if changes occur.''\<rparr>),
      (3, \<lparr>info_severity = ''low'',
           info_description = ''Benign fibrous nodule, generally harmless.'',
           info_recommendation = ''Usually no treatment needed unless causing discomfort.''\<rparr>),
      (4, \<lparr>info_severity = ''low'',
           info_description = ''Common mole, typically benign but should be monitored.'',
           info_recommendation = ''Monitor for changes using ABCDE method. Annual checkup recommended.''\<rparr>),
      (5, \<lparr>info_severity = ''low'',
           info_description = ''Abnormality of blood vessels, usually benign.'',
           info_recommendation = ''Consult dermatologist if rapidly changing or bleeding.''\<rparr>),
      (6, \<lparr>info_severity = ''critical'',
           info_description = ''Most dangerous form of skin cancer. Early detection is crucial.'',
           info_recommendation = ''URGENT: Immediate consultation with dermatologist required.''\<rparr>),
      (7, \<lparr>info_severity = ''none'',
           info_description = ''No signs of cancer detected in the analysis.'',
           info_recommendation = ''Continue regular self-examinations and annual dermatologist visits.''\<rparr>)]"

section \<open>The persisted model and its forward pass\<close>

text \<open>
  Pixel arrays are flattened lists. A decoded picture holds 8-bit channel values;
  \<open>img_to_array\<close> turns them into floating-point numbers without scaling them.
  Floating-point numbers are idealised as reals.
\<close>

type_synonym picture = "nat list"
type_synonym tensor = "real list"

definition img_to_array :: "picture \<Rightarrow> tensor" where
  "img_to_array img = map real img"

text \<open>
  \<open>x = np.expand_dims(x, axis=0); images = np.vstack([x])\<close>: a batch holding the one
  array, its values untouched.
\<close>

definition expand_dims :: "tensor \<Rightarrow> tensor list" where
  "expand_dims x = [x]"

definition vstack :: "tensor list list \<Rightarrow> tensor list" where
  "vstack xs = concat xs"

text \<open>
  The artifact saved by the training script ends in
  \<open>Dense(units=8, activation='softmax', name='classifier')\<close>. Everything in front
  of that activation (the convolution stages, the hidden dense layers and the
  affine map of the classifier layer, with the learned weights) is one function
  from the input array to the pre-activations of the classifier layer.
\<close>

datatype ModelArtifact = ModelArtifact (logits: "tensor \<Rightarrow> real list")

definition softmax :: "real list \<Rightarrow> real list" where
  "softmax zs = map (\<lambda>z. exp z / (\<Sum>y\<leftarrow>zs. exp y)) zs"

text \<open>\<open>model.predict(images, ...)\<close>: one output row for every array of the batch.\<close>

definition predict :: "ModelArtifact \<Rightarrow> tensor list \<Rightarrow> real list list" where
  "predict m images = map (\<lambda>x. softmax (logits m x)) images"

text \<open>
  \<open>np.argmax\<close> and \<open>np.max\<close> without an axis work on the flattened array;
  \<open>np.argmax\<close> gives the first position of the maximum. Both raise on an empty array.
\<close>

fun argmax_from :: "nat \<Rightarrow> real \<Rightarrow> nat \<Rightarrow> real list \<Rightarrow> nat" where
  "argmax_from best bv i [] = best"
| "argmax_from best bv i (y # ys) =
     (if bv < y then argmax_from i y (Suc i) ys else argmax_from best bv (Suc i) ys)"

definition np_argmax :: "real list list \<Rightarrow> error + nat" where
  "np_argmax a = (case concat a of [] \<Rightarrow> Inl ValueError | x # xs \<Rightarrow> Inr (argmax_from 0 x 1 xs))"

definition np_max :: "real list list \<Rightarrow> error + real" where
  "np_max a = (case concat a of [] \<Rightarrow> Inl ValueError | x # xs \<Rightarrow> Inr (fold max xs x))"

definition py_enumerate :: "'a list \<Rightarrow> (nat \<times> 'a) list" where
  "py_enumerate xs = zip [0..<length xs] xs"

section \<open>api.py: service state and library environment\<close>

type_synonym bytes = "nat list"

text \<open>
  The input/output operations a handler performs, in order. The list is kept in
  the state so that a statement such as "no decode was attempted" can be read
  off the state after the call.
\<close>

datatype io_op =
    LoadModel string
  | SaveFile string
  | LoadImg string
  | Predict
  | RemoveFile string

text \<open>
  The process state: the global \<open>model\<close>, the upload directory, the model files
  on disk, and the operations performed so far.
\<close>

record api_state =
  model :: "ModelArtifact option"
  uploads :: "string \<rightharpoonup> bytes"
  model_files :: "string \<rightharpoonup> ModelArtifact"
  ops :: "io_op list"

text \<open>
  Library functions whose code is outside the repository are parameters:
  \<open>load_img\<close> (read, decode and resize a picture; \<open>None\<close> when it raises),
  werkzeug's \<open>secure_filename\<close>, and \<open>str\<close> of an exception.
\<close>

record lib =
  load_img :: "bytes \<Rightarrow> nat \<times> nat \<Rightarrow> picture option"
  secure_filename :: "string \<Rightarrow> string"
  str_of :: "error \<Rightarrow> string"

text \<open>What differs from one request to the next: \<open>uuid.uuid4()\<close> and the clock.\<close>

record ambient =
  uuid4 :: string
  strftime_now :: string
  isoformat_now :: string

definition MODEL_PATH :: string where
  "MODEL_PATH = ''SkinCancerClassificationModelhdf5nc.h5''"

text \<open>
  \<open>load_ml_model\<close>: the global is assigned as soon as \<open>load_model\<close> returns; a
  missing or unreadable file raises inside the \<open>try\<close>, the global keeps its value
  and the function returns \<open>False\<close>.
\<close>

definition load_ml_model :: "api_state \<Rightarrow> bool \<times> api_state" where
  "load_ml_model s =
     (let s1 = s\<lparr>ops := ops s @ [LoadModel MODEL_PATH]\<rparr>
      in case model_files s MODEL_PATH of
           None \<Rightarrow> (False, s1)
         | Some m \<Rightarrow> (True, s1\<lparr>model := Some m\<rparr>))"

definition generate_unique_filename :: "ambient \<Rightarrow> string \<Rightarrow> error + string" where
  "generate_unique_filename amb original_filename =
     (case (if CHR ''.'' \<in> set original_filename
            then (case py_index (rsplit1 CHR ''.'' original_filename) 1 of
                    Inl e \<Rightarrow> Inl e | Inr x \<Rightarrow> Inr (lower x))
            else Inr ''jpg'') of
        Inl e \<Rightarrow> Inl e
      | Inr ext \<Rightarrow> Inr (strftime_now amb @ ''_'' @ uuid4 amb @ ''.'' @ ext))"

section \<open>api.py: analyze_image\<close>

record PredictionResult =
  diagnosis_class :: nat
  diagnosis :: string
  confidence :: real
  severity :: string
  description :: string
  recommendation :: string
  probabilities :: "string \<rightharpoonup> real"

text \<open>
  The loop \<open>for idx, prob in enumerate(predictions[0]): probabilities[CANCER_CLASSES[idx]]
  = float(prob)\<close>; an index outside the class table raises \<open>KeyError\<close>.
\<close>

fun build_probabilities ::
  "(string \<rightharpoonup> real) \<Rightarrow> (nat \<times> real) list \<Rightarrow> error + (string \<rightharpoonup> real)" where
  "build_probabilities acc [] = Inr acc"
| "build_probabilities acc ((idx, prob) # rest) =
     (case CANCER_CLASSES idx of
        None \<Rightarrow> Inl (KeyError idx)
      | Some name \<Rightarrow> build_probabilities (acc(name \<mapsto> prob)) rest)"

definition make_result :: "real list list \<Rightarrow> error + PredictionResult" where
  "make_result predictions =
     (case np_argmax predictions of Inl e \<Rightarrow> Inl e | Inr dc \<Rightarrow>
      case np_max predictions of Inl e \<Rightarrow> Inl e | Inr conf \<Rightarrow>
      case py_index predictions 0 of Inl e \<Rightarrow> Inl e | Inr row \<Rightarrow>
      case build_probabilities Map.empty (py_enumerate row) of Inl e \<Rightarrow> Inl e | Inr probs \<Rightarrow>
      case CANCER_INFO dc of None \<Rightarrow> Inl (KeyError dc) | Some info \<Rightarrow>
        Inr \<lparr>diagnosis_class = dc,
             diagnosis = (case CANCER_CLASSES dc of Some n \<Rightarrow> n | None \<Rightarrow> ''Unknown''),
             confidence = conf,
             severity = info_severity info,
             description = info_description info,
             recommendation = info_recommendation info,
             probabilities = probs\<rparr>)"

text \<open>
  \<open>analyze_image(image_path)\<close>. The body is one \<open>try\<close>: every exception ends in
  the failure result (\<open>Inl\<close>). The steps follow the source: load and decode the
  file, convert it to an array, make it a batch of one, predict, then build the
  result from the prediction.
\<close>

definition analyze_image ::
  "lib \<Rightarrow> api_state \<Rightarrow> string \<Rightarrow> (error + PredictionResult) \<times> api_state" where
  "analyze_image L s image_path =
     (let s1 = s\<lparr>ops := ops s @ [LoadImg image_path]\<rparr>
      in case uploads s image_path of
           None \<Rightarrow> (Inl OSError, s1)
         | Some content \<Rightarrow>
             (case load_img L content (IMG_WIDTH, IMG_HEIGHT) of
                None \<Rightarrow> (Inl ImageDecodeError, s1)
              | Some img \<Rightarrow>
                  (let x = img_to_array img;
                       x' = expand_dims x;
                       images = vstack [x']
                   in case model s of
                        None \<Rightarrow> (Inl AttributeError, s1)
                      | Some m \<Rightarrow>
                          (let predictions = predict m images;
                               s2 = s1\<lparr>ops := ops s1 @ [Predict]\<rparr>
                           in (make_result predictions, s2)))))"

section \<open>api.py: routes\<close>

record ImageInfo =
  filename :: string
  original_filename :: string
  url :: string
  upload_time :: string

datatype body =
    HealthBody string bool string string
  | FailureBody string
  | AnalysisBody PredictionResult ImageInfo
  | FileBody bytes
  | InfoBody "(nat \<times> string \<times> class_info) list"

type_synonym response = "body \<times> nat"

definition health_check :: "ambient \<Rightarrow> api_state \<Rightarrow> response" where
  "health_check amb s =
     (HealthBody ''healthy'' (model s \<noteq> None) (isoformat_now amb) ''1.0.0'', 200)"

text \<open>
  \<open>analyze\<close>: the checks in the order of the source (model loaded, file part
  present, filename not empty, extension allowed), then save, analyse, and on a
  failed analysis remove the saved file. The argument is \<open>request.files.get('file')\<close>:
  the filename and the content of the upload. Any exception that escapes is caught
  by the outer \<open>except\<close> and answered with 500.
\<close>

definition analyze ::
  "lib \<Rightarrow> ambient \<Rightarrow> api_state \<Rightarrow> (string \<times> bytes) option \<Rightarrow> response \<times> api_state" where
  "analyze L amb s file =
     (if model s = None
      then ((FailureBody ''Model not loaded. Please contact administrator.'', 503), s)
      else case file of
        None \<Rightarrow> ((FailureBody ''No file provided. Please upload an image.'', 400), s)
      | Some (fname, content) \<Rightarrow>
          if fname = ''''
          then ((FailureBody ''No file selected.'', 400), s)
          else case allowed_file fname of
            Inl e \<Rightarrow> ((FailureBody (''Server error: '' @ str_of L e), 500), s)
          | Inr False \<Rightarrow>
              ((FailureBody ''Invalid file type. Allowed types: PNG, JPG, JPEG, GIF'', 400), s)
          | Inr True \<Rightarrow>
              (let original = secure_filename L fname
               in case generate_unique_filename amb original of
                    Inl e \<Rightarrow> ((FailureBody (''Server error: '' @ str_of L e), 500), s)
                  | Inr unique \<Rightarrow>
                      (let s1 = s\<lparr>uploads := (uploads s)(unique \<mapsto> content),
                                   ops := ops s @ [SaveFile unique]\<rparr>;
                           (result, s2) = analyze_image L s1 unique
                       in case result of
                            Inr r \<Rightarrow>
                              ((AnalysisBody r
                                  \<lparr>filename = unique,
                                   original_filename = original,
                                   url = ''/api/images/'' @ unique,
                                   upload_time = isoformat_now amb\<rparr>, 200), s2)
                          | Inl e \<Rightarrow>
                              ((FailureBody (''Image analysis failed: '' @ str_of L e), 500),
                               (if unique \<in> dom (uploads s2)
                                then s2\<lparr>uploads := (uploads s2)(unique := None),
                                        ops := ops s2 @ [RemoveFile unique]\<rparr>
                                else s2)))))"

text \<open>
  \<open>get_image\<close>: for a missing file \<open>send_from_directory\<close> raises werkzeug's
  \<open>NotFound\<close>, which is not a \<open>FileNotFoundError\<close>; the \<open>except\<close> branch of the
  route does not catch it and the application's 404 handler answers.
\<close>

definition get_image :: "api_state \<Rightarrow> string \<Rightarrow> response" where
  "get_image s name =
     (case uploads s name of
        Some content \<Rightarrow> (FileBody content, 200)
      | None \<Rightarrow> (FailureBody ''Endpoint not found'', 404))"

definition get_info :: response where
  "get_info =
     (InfoBody (concat (map (\<lambda>idx. case (CANCER_CLASSES idx, CANCER_INFO idx) of
                                     (Some name, Some info) \<Rightarrow> [(idx, name, info)]
                                   | _ \<Rightarrow> []) [0..<8])), 200)"

datatype request =
    GET_health
  | POST_analyze "(string \<times> bytes) option"
  | GET_images string
  | GET_info

fun handle :: "lib \<Rightarrow> api_state \<Rightarrow> ambient \<times> request \<Rightarrow> response \<times> api_state" where
  "handle L s (amb, GET_health) = (health_check amb s, s)"
| "handle L s (amb, POST_analyze file) = analyze L amb s file"
| "handle L s (amb, GET_images name) = (get_image s name, s)"
| "handle L s (amb, GET_info) = (get_info, s)"

text \<open>The server answers the requests one after the other, threading the state.\<close>

fun serve :: "lib \<Rightarrow> api_state \<Rightarrow> (ambient \<times> request) list \<Rightarrow> response list \<times> api_state" where
  "serve L s [] = ([], s)"
| "serve L s (r # rs) =
     (let (resp, s1) = handle L s r; (resps, s2) = serve L s1 rs in (resp # resps, s2))"

text \<open>
  The \<open>__main__\<close> block: the global starts as \<open>None\<close>, \<open>load_ml_model\<close> runs once,
  and the server starts whether or not the load succeeded.
\<close>

definition startup :: "(string \<rightharpoonup> bytes) \<Rightarrow> (string \<rightharpoonup> ModelArtifact) \<Rightarrow> api_state" where
  "startup files disk =
     snd (load_ml_model \<lparr>model = None, uploads = files, model_files = disk, ops = []\<rparr>)"

text \<open>The paths of the model files that a list of operations loaded, in order.\<close>

fun loads :: "io_op list \<Rightarrow> string list" where
  "loads [] = []"
| "loads (LoadModel p # rest) = p # loads rest"
| "loads (_ # rest) = loads rest"

section \<open>app.py: the q2 route\<close>

text \<open>
  The older, template-rendering service. It has no global model: the \<open>POST\<close> branch
  of \<open>q2\<close> saves the upload under the name the client sent, re-opens and re-saves it
  with PIL, loads the model file from disk, and predicts. An exception that
  escapes the handler is answered by the 500 page; a request without the
  \<open>file\<close> part is a bad request.
\<close>

record app_state =
  app_uploads :: "string \<rightharpoonup> bytes"
  app_model_files :: "string \<rightharpoonup> ModelArtifact"
  app_ops :: "io_op list"

datatype http_method = GET | POST

datatype page =
    Q2Form
  | Q2Result string string
  | ErrorPage

definition app_model_path :: string where
  "app_model_path =
     ''C:'' @ [CHR 0x5C] @ ''Anjali'' @ [CHR 0x5C] @ ''mysite'' @ [CHR 0x5C]
       @ ''SkinCancerClassificationModelhdf5nc.h5''"

definition cancer_classes :: "nat \<rightharpoonup> string" where
  "cancer_classes = map_of
     [(0, ''Actinic keratoses and intraepithelial carcinomae''),
      (1, ''Basal Cell Carcinoma''),
      (2, ''Benign Keratosis''),
      (3, ''Dermatofibroma''),
      (4, ''melanocytic nevus''),
      (5, ''Vascular Lesion''),
      (6, ''Melanoma''),
      (7, ''No Cancer Detected'')]"

text \<open>
  \<open>save_ok\<close> says whether \<open>uploaded_image.save\<close> can write a file of the given
  name into the upload directory (the name comes from the client as it is; a
  name that points into a directory that does not exist cannot be written, and
  neither can the empty name); where it cannot, the call raises.
  \<open>pil_resave\<close> stands for \<open>im.open(path)\<close> followed by \<open>image4.save(path)\<close>. It
  takes the name and the content of the file: PIL reads the picture from the
  content and chooses the format to write from the extension of the name. The
  result is the new content of the file, or \<open>None\<close> when PIL raises (a content it
  cannot read, or a name whose extension it does not know).
\<close>

definition q2 ::
  "lib \<Rightarrow> (string \<Rightarrow> bool) \<Rightarrow> (string \<Rightarrow> bytes \<Rightarrow> bytes option) \<Rightarrow> app_state
     \<Rightarrow> http_method \<Rightarrow> (string \<times> bytes) option \<Rightarrow> (page \<times> nat) \<times> app_state" where
  "q2 L save_ok pil_resave s method file =
     (case method of
        GET \<Rightarrow> ((Q2Form, 200), s)
      | POST \<Rightarrow>
         (case file of
            None \<Rightarrow> ((ErrorPage, 400), s)
          | Some (fname, content) \<Rightarrow>
              if fname = '''' \<or> \<not> save_ok fname then ((ErrorPage, 500), s)
              else
                (let s1 = s\<lparr>app_uploads := (app_uploads s)(fname \<mapsto> content),
                             app_ops := app_ops s @ [SaveFile fname]\<rparr>
                 in case pil_resave fname content of
                      None \<Rightarrow> ((ErrorPage, 500), s1)
                    | Some content' \<Rightarrow>
                        (let s2 = s1\<lparr>app_uploads := (app_uploads s1)(fname \<mapsto> content'),
                                      app_ops := app_ops s1 @ [SaveFile fname, LoadModel app_model_path]\<rparr>
                         in case app_model_files s app_model_path of
                              None \<Rightarrow> ((ErrorPage, 500), s2)
                            | Some m \<Rightarrow>
                                (let s3 = s2\<lparr>app_ops := app_ops s2 @ [LoadImg fname]\<rparr>
                                 in case load_img L content' (28, 28) of
                                      None \<Rightarrow> ((ErrorPage, 500), s3)
                                    | Some img \<Rightarrow>
                                        (let x = img_to_array img;
                                             x' = expand_dims x;
                                             images = vstack [x'];
                                             predictions = predict m images;
                                             s4 = s3\<lparr>app_ops := app_ops s3 @ [Predict]\<rparr>
                                         in case np_argmax predictions of
                                              Inl e \<Rightarrow> ((ErrorPage, 500), s4)
                                            | Inr dc \<Rightarrow>
                                                ((Q2Result fname
                                                    (case cancer_classes dc of
                                                       Some n \<Rightarrow> n
                                                     | None \<Rightarrow> ''Unknown''), 200), s4)))))))"

section \<open>SkinCancerModelCreation.py: dataset assembly\<close>

text \<open>
  A numpy array of the training script: its shape and its values in row-major
  order.
\<close>

type_synonym ndarray = "nat list \<times> nat list"

text \<open>
  The loop over the non-cancer directory: every file is opened, resized to 28 by 28
  and appended as an array, together with the label 7. \<open>open_resize\<close> stands for
  \<open>np.asarray(im.open(...).resize((28, 28)))\<close>; a file PIL cannot read raises and
  ends the script. The picture is not converted to RGB, so the shape of the array
  follows the mode of the file: 28 by 28 by 3 for an RGB picture, 28 by 28 for a
  grayscale one, 28 by 28 by 4 for one with an alpha channel.
\<close>

fun load_non_cancer ::
  "(bytes \<Rightarrow> ndarray option) \<Rightarrow> bytes list \<Rightarrow> ndarray list \<Rightarrow> nat list
     \<Rightarrow> error + (ndarray list \<times> nat list)" where
  "load_non_cancer open_resize [] nc_data_list nc_data_label = Inr (nc_data_list, nc_data_label)"
| "load_non_cancer open_resize (f # fs) nc_data_list nc_data_label =
     (case open_resize f of
        None \<Rightarrow> Inl ImageDecodeError
      | Some test_image \<Rightarrow>
          load_non_cancer open_resize fs (nc_data_list @ [test_image]) (nc_data_label @ [7]))"

text \<open>
  The random source of the oversampler is a stream of naturals read from a
  position; \<open>choice\<close> is \<open>random_state.choice(xs, size=k, replace=True)\<close>: \<open>k\<close>
  independent draws from \<open>xs\<close>.
\<close>

definition choice :: "(nat \<Rightarrow> nat) \<Rightarrow> nat \<Rightarrow> nat list \<Rightarrow> nat \<Rightarrow> nat list" where
  "choice rng pos xs k = map (\<lambda>j. xs ! (rng (pos + j) mod length xs)) [0..<k]"

definition class_indices :: "nat list \<Rightarrow> nat \<Rightarrow> nat list" where
  "class_indices y c = filter (\<lambda>i. y ! i = c) [0..<length y]"

definition max_class_count :: "nat list \<Rightarrow> nat" where
  "max_class_count y = fold max (map (count_list y) (remdups y)) 0"

text \<open>
  Modelled from the spec: \<open>RandomOverSampler().fit_resample\<close> is a call into the
  imbalanced-learn package, whose code is not among the sources. The spec says:
  for every class whose count is below the maximum class count, resample (with
  replacement) additional instances from that class until all counts equal the
  maximum. The classes are those that occur in the label column, taken in
  ascending order; the resampled rows are appended after the original rows, and
  data and labels are gathered through the same list of row indices.
\<close>

fun resample_classes :: "(nat \<Rightarrow> nat) \<Rightarrow> nat \<Rightarrow> nat list \<Rightarrow> nat list \<Rightarrow> nat list" where
  "resample_classes rng pos y [] = []"
| "resample_classes rng pos y (c # cs) =
     (let num_samples = max_class_count y - count_list y c
      in choice rng pos (class_indices y c) num_samples
           @ resample_classes rng (pos + num_samples) y cs)"

definition fit_resample ::
  "(nat \<Rightarrow> nat) \<Rightarrow> 'a list \<Rightarrow> nat list \<Rightarrow> error + ('a list \<times> nat list)" where
  "fit_resample rng X y =
     (if length X \<noteq> length y then Inl ValueError
      else
        (let below = filter (\<lambda>c. count_list y c < max_class_count y) (sort (remdups y));
             sample_indices = [0..<length y] @ resample_classes rng 0 y below
         in Inr (map (\<lambda>i. X ! i) sample_indices, map (\<lambda>i. y ! i) sample_indices)))"

text \<open>
  Line 69, \<open>np.array(Data).reshape(-1, 28, 28, 3)\<close>. The rows of the table are the
  pixel columns of the CSV file. The values of the table in row-major order are
  cut into pieces of 28 * 28 * 3 = 2352 values, one array each; rows of different
  lengths, or a number of values that is not a multiple of 2352, raise.
\<close>

definition reshape_28_28_3 :: "nat list list \<Rightarrow> error + ndarray list" where
  "reshape_28_28_3 rows =
     (let flat = concat rows
      in if \<not> list_all (\<lambda>row. length row = length (hd rows)) rows then Inl ValueError
         else if length flat mod 2352 \<noteq> 0 then Inl ValueError
         else Inr (map (\<lambda>k. ([28, 28, 3], take 2352 (drop (k * 2352) flat)))
                       [0..<length flat div 2352]))"

text \<open>
  Line 85, \<open>np.array(Data)\<close> on the list of arrays: arrays of the same shape are
  stacked; arrays of different shapes raise.
\<close>

definition np_array :: "ndarray list \<Rightarrow> error + ndarray list" where
  "np_array arrays =
     (case arrays of
        [] \<Rightarrow> Inr []
      | a # rest \<Rightarrow>
          if list_all (\<lambda>b. fst b = fst a) rest then Inr arrays else Inl ValueError)"

text \<open>
  Lines 66 to 85: balance the tabular rows, reshape them, then append the
  non-cancer labels and arrays one by one and stack the result.
\<close>

definition combine ::
  "(nat \<Rightarrow> nat) \<Rightarrow> nat list list \<Rightarrow> nat list \<Rightarrow> ndarray list \<Rightarrow> nat list
     \<Rightarrow> error + (ndarray list \<times> nat list)" where
  "combine rng Data Label nc_data_list nc_data_label =
     (case fit_resample rng Data Label of
        Inl e \<Rightarrow> Inl e
      | Inr (Data1, Label1) \<Rightarrow>
          (case reshape_28_28_3 Data1 of
             Inl e \<Rightarrow> Inl e
           | Inr Data2 \<Rightarrow>
               (let Label3 = fold (\<lambda>label Label2. Label2 @ [label]) nc_data_label Label1;
                    Data3 = fold (\<lambda>nc Data2. Data2 @ [nc]) nc_data_list Data2
                in case np_array Data3 of
                     Inl e \<Rightarrow> Inl e
                   | Inr Data4 \<Rightarrow> Inr (Data4, Label3))))"

section \<open>SkinCancerModelCreation.py: class map and confusion matrix\<close>

text \<open>The dictionary \<open>classes\<close>, in its written order: a Python dict keeps insertion order.\<close>

definition classes :: "(nat \<times> string \<times> string) list" where
  "classes =
     [(4, ''nv'', '' melanocytic nevi''),
      (6, ''mel'', ''melanoma''),
      (2, ''bkl'', ''benign keratosis-like lesions''),
      (1, ''bcc'', '' basal cell carcinoma''),
      (5, ''vasc'', '' pyogenic granulomas and hemorrhage''),
      (0, ''akiec'', ''Actinic keratoses and intraepithelial carcinomae''),
      (3, ''df'', ''dermatofibroma''),
      (7, ''nc'', ''non-cancerous'')]"

text \<open>\<open>for key in classes.keys(): classes_labels.append(key)\<close>\<close>

definition classes_labels :: "nat list" where
  "classes_labels = fold (\<lambda>key acc. acc @ [key]) (map fst classes) []"

text \<open>
  scikit-learn's \<open>confusion_matrix(y_true, y_pred, labels=...)\<close>: entry \<open>(i, j)\<close> counts
  the samples whose true label is the \<open>i\<close>-th and whose predicted label is the
  \<open>j\<close>-th element of \<open>labels\<close>; a sample with a label outside \<open>labels\<close> is not counted.
  Arrays of different lengths raise.
\<close>

definition confusion_matrix :: "nat list \<Rightarrow> nat list \<Rightarrow> nat list \<Rightarrow> error + nat list list" where
  "confusion_matrix y_true y_pred labels =
     (if length y_true \<noteq> length y_pred then Inl ValueError
      else Inr (map (\<lambda>t. map (\<lambda>p. length (filter (\<lambda>(a, b). a = t \<and> b = p) (zip y_true y_pred)))
                            labels) labels))"

definition cm :: "nat list \<Rightarrow> nat list \<Rightarrow> error + nat list list" where
  "cm y_true y_pred = confusion_matrix y_true y_pred classes_labels"

section \<open>SkinCancerModelCreation.py: train/test split\<close>

text \<open>
  Modelled from the spec: \<open>train_test_split\<close> is a call into scikit-learn, whose
  code is not among the sources. The spec says: split into train/test partitions
  using a fixed proportion (25% held out) and a fixed seed; no instance may appear
  in both partitions. The test partition takes the first \<open>ceil(test_size * n)\<close>
  positions of a pseudo-random permutation of the row indices, the train
  partition the rest. The generator seeded with \<open>random_state\<close> is the parameter
  \<open>permutation\<close>. Arrays of different lengths, and a split that would leave the
  train partition empty, raise.
\<close>

definition split_indices ::
  "(nat \<Rightarrow> nat \<Rightarrow> nat list) \<Rightarrow> nat \<Rightarrow> rat \<Rightarrow> nat \<Rightarrow> error + (nat list \<times> nat list)" where
  "split_indices permutation n test_size random_state =
     (let n_test = nat \<lceil>test_size * of_nat n\<rceil>;
          n_train = n - n_test
      in if n = 0 \<or> n < n_test \<or> n_train = 0 then Inl ValueError
         else
           (let perm = permutation random_state n;
                ind_test = take n_test perm;
                ind_train = take n_train (drop n_test perm)
            in Inr (ind_train, ind_test)))"

definition train_test_split ::
  "(nat \<Rightarrow> nat \<Rightarrow> nat list) \<Rightarrow> 'a list \<Rightarrow> 'b list \<Rightarrow> rat \<Rightarrow> nat
     \<Rightarrow> error + ('a list \<times> 'a list \<times> 'b list \<times> 'b list)" where
  "train_test_split permutation X y test_size random_state =
     (if length X \<noteq> length y then Inl ValueError
      else case split_indices permutation (length X) test_size random_state of
        Inl e \<Rightarrow> Inl e
      | Inr (ind_train, ind_test) \<Rightarrow>
          Inr (map (\<lambda>i. X ! i) ind_train, map (\<lambda>i. X ! i) ind_test,
               map (\<lambda>i. y ! i) ind_train, map (\<lambda>i. y ! i) ind_test))"

text \<open>Line 104: \<open>train_test_split(Data, Label, test_size = 0.25, random_state = 49)\<close>.\<close>

definition split_dataset ::
  "(nat \<Rightarrow> nat \<Rightarrow> nat list) \<Rightarrow> 'a list \<Rightarrow> nat list
     \<Rightarrow> error + ('a list \<times> 'a list \<times> nat list \<times> nat list)" where
  "split_dataset permutation Data Label = train_test_split permutation Data Label (1 / 4) 49"

section \<open>SkinCancerModelCreation.py: data generators\<close>

record ImageDataGenerator =
  rescale :: real
  rotation_range :: real
  zoom_range :: real
  width_shift_range :: real
  height_shift_range :: real

definition datagen :: ImageDataGenerator where
  "datagen = \<lparr>rescale = 1 / 255, rotation_range = 10, zoom_range = 0.1,
              width_shift_range = 0.1, height_shift_range = 0.1\<rparr>"

text \<open>Arguments that are not given keep the library's defaults, which are 0.\<close>

definition testgen :: ImageDataGenerator where
  "testgen = \<lparr>rescale = 1 / 255, rotation_range = 0, zoom_range = 0,
              width_shift_range = 0, height_shift_range = 0\<rparr>"

text \<open>The rescale step of a generator multiplies every value by its factor.\<close>

definition standardize :: "ImageDataGenerator \<Rightarrow> tensor \<Rightarrow> tensor" where
  "standardize g x = map (\<lambda>v. v * rescale g) x"

definition geometric_free :: "ImageDataGenerator \<Rightarrow> bool" where
  "geometric_free g =
     (rotation_range g = 0 \<and> zoom_range g = 0 \<and> width_shift_range g = 0
      \<and> height_shift_range g = 0)"

text \<open>
  The preprocessing of the serve path, lines 157 to 159 of \<open>analyze_image\<close>:
  the batch that is handed to \<open>model.predict\<close>.
\<close>

definition serve_batch :: "picture \<Rightarrow> tensor list" where
  "serve_batch img = vstack [expand_dims (img_to_array img)]"

section \<open>SkinCancerModelCreation.py: network topology\<close>

datatype regularizer = L1L2 "real option" "real option"

datatype layer =
    Input "nat list"
  | Conv2D nat "nat \<times> nat" string string string
  | MaxPooling2D
  | BatchNormalization
  | Flatten
  | Dropout real
  | Dense nat string string "regularizer option" "string option"

text \<open>The calls \<open>model.add(...)\<close> of lines 139 to 171, in order.\<close>

definition network :: "layer list" where
  "network =
     [Input [28, 28, 3],
      Conv2D 32 (3, 3) ''relu'' ''same'' ''he_normal'',
      MaxPooling2D,
      BatchNormalization,
      Conv2D 64 (3, 3) ''relu'' ''same'' ''he_normal'',
      Conv2D 64 (3, 3) ''relu'' ''same'' ''he_normal'',
      MaxPooling2D,
      BatchNormalization,
      Conv2D 128 (3, 3) ''relu'' ''same'' ''he_normal'',
      Conv2D 128 (3, 3) ''relu'' ''same'' ''he_normal'',
      MaxPooling2D,
      BatchNormalization,
      Conv2D 256 (3, 3) ''relu'' ''same'' ''he_normal'',
      Conv2D 256 (3, 3) ''relu'' ''same'' ''he_normal'',
      MaxPooling2D,
      Flatten,
      Dropout 0.2,
      Dense 256 ''relu'' ''he_normal'' None None,
      BatchNormalization,
      Dense 128 ''relu'' ''he_normal'' None None,
      BatchNormalization,
      Dense 64 ''relu'' ''he_normal'' None None,
      BatchNormalization,
      Dense 32 ''relu'' ''he_normal'' (Some (L1L2 None None)) None,
      BatchNormalization,
      Dense 8 ''softmax'' ''glorot_uniform'' None (Some ''classifier'')]"

text \<open>
  Every dense layer of a network with its width, its kernel regularizer and the
  layer that comes right after it (\<open>None\<close> for the last layer).
\<close>

fun dense_layers :: "layer list \<Rightarrow> (nat \<times> regularizer option \<times> layer option) list" where
  "dense_layers [] = []"
| "dense_layers [Dense u a i r n] = [(u, r, None)]"
| "dense_layers (Dense u a i r n # next # rest) = (u, r, Some next) # dense_layers (next # rest)"
| "dense_layers (_ # rest) = dense_layers rest"

section \<open>Concrete inputs\<close>

text \<open>A library environment, request surroundings and a model used in the examples.\<close>

definition L0 :: lib where
  "L0 = \<lparr>load_img = (\<lambda>content size. Some content), secure_filename = (\<lambda>n. n),
          str_of = (\<lambda>e. ''error'')\<rparr>"

definition amb0 :: ambient where
  "amb0 = \<lparr>uuid4 = ''u1'', strftime_now = ''20240101_000000'',
            isoformat_now = ''2024-01-01T00:00:00''\<rparr>"

definition pil0 :: "string \<Rightarrow> bytes \<Rightarrow> bytes option" where
  "pil0 name content =
     (case rsplit1 CHR ''.'' name of
        [stem, ext] \<Rightarrow> if lower ext \<in> {''png'', ''bmp'', ''jpg''} then Some content else None
      | _ \<Rightarrow> None)"

definition m0 :: ModelArtifact where
  "m0 = ModelArtifact (\<lambda>x. [0, 0, 0, 0, 0, 0, 0, 1])"

section \<open>Facts about the string helpers\<close>

lemma rsplit1_decompose:
  assumes "sep \<in> set s"
  shows "\<exists>stem ext. rsplit1 sep s = [stem, ext] \<and> s = stem @ sep # ext \<and> sep \<notin> set ext"
proof -
  let ?r = "rev s"
  let ?ext = "rev (takeWhile (\<lambda>c. c \<noteq> sep) ?r)"
  let ?rest = "dropWhile (\<lambda>c. c \<noteq> sep) ?r"
  from assms have ne: "?rest \<noteq> []" by simp
  then have hd: "hd ?rest = sep" using hd_dropWhile [of "\<lambda>c. c \<noteq> sep" ?r] by auto
  from ne hd have rest: "?rest = sep # tl ?rest" by (cases ?rest) auto
  have "?r = takeWhile (\<lambda>c. c \<noteq> sep) ?r @ ?rest" by simp
  then have "?r = takeWhile (\<lambda>c. c \<noteq> sep) ?r @ sep # tl ?rest" using rest by simp
  then have "rev ?r = rev (takeWhile (\<lambda>c. c \<noteq> sep) ?r @ sep # tl ?rest)" by simp
  then have s: "s = rev (tl ?rest) @ sep # ?ext" by simp
  have "sep \<notin> set ?ext" by (auto dest: set_takeWhileD)
  with s assms show ?thesis by (simp add: rsplit1_def)
qed

lemma rsplit1_unique:
  assumes "s = stem @ sep # ext" and "sep \<notin> set ext"
  shows "rsplit1 sep s = [stem, ext]"
proof -
  have r: "rev s = rev ext @ sep # rev stem" using assms by simp
  have t: "takeWhile (\<lambda>c. c \<noteq> sep) (rev s) = rev ext"
    unfolding r using assms(2) by (subst takeWhile_append2) auto
  have d: "dropWhile (\<lambda>c. c \<noteq> sep) (rev s) = sep # rev stem"
    unfolding r using assms(2) by (subst dropWhile_append2) auto
  have "sep \<in> set s" using assms by simp
  then show ?thesis by (simp add: rsplit1_def t d)
qed

section \<open>The upload extension check\<close>

text \<open>
  Claim C10. The extension check never raises and is case-insensitive: a filename
  is accepted if and only if it has a dot and the part after its last dot,
  lowercased, is one of png, jpg, jpeg, gif. The filename \<open>x.PNG\<close> is accepted, and
  a filename without a dot is rejected.
\<close>

theorem allowed_file_iff:
  "allowed_file fname =
     Inr (\<exists>stem ext. fname = stem @ CHR ''.'' # ext \<and> CHR ''.'' \<notin> set ext
            \<and> lower ext \<in> {''png'', ''jpg'', ''jpeg'', ''gif''})
   \<and> allowed_file ''x.PNG'' = Inr True
   \<and> (CHR ''.'' \<notin> set fname \<longrightarrow> allowed_file fname = Inr False)"
proof (intro conjI impI)
  show "allowed_file fname =
     Inr (\<exists>stem ext. fname = stem @ CHR ''.'' # ext \<and> CHR ''.'' \<notin> set ext
            \<and> lower ext \<in> {''png'', ''jpg'', ''jpeg'', ''gif''})"
  proof (cases "CHR ''.'' \<in> set fname")
    case True
    from rsplit1_decompose [OF True] obtain stem ext where
      d: "rsplit1 CHR ''.'' fname = [stem, ext]" "fname = stem @ CHR ''.'' # ext"
         "CHR ''.'' \<notin> set ext"
      by blast
    have u: "ext' = ext" if "fname = stem' @ CHR ''.'' # ext'" "CHR ''.'' \<notin> set ext'"
      for stem' ext'
      using rsplit1_unique [OF that] d(1) by simp
    have "(\<exists>stem ext. fname = stem @ CHR ''.'' # ext \<and> CHR ''.'' \<notin> set ext
            \<and> lower ext \<in> {''png'', ''jpg'', ''jpeg'', ''gif''})
          = (lower ext \<in> {''png'', ''jpg'', ''jpeg'', ''gif''})"
      using d(2,3) u by blast
    then show ?thesis
      using True d(1) by (simp add: allowed_file_def py_index_def ALLOWED_EXTENSIONS_def)
  next
    case False
    then have "\<not> (\<exists>stem ext. fname = stem @ CHR ''.'' # ext \<and> CHR ''.'' \<notin> set ext
            \<and> lower ext \<in> {''png'', ''jpg'', ''jpeg'', ''gif''})"
      by auto
    with False show ?thesis by (simp add: allowed_file_def)
  qed
next
  show "allowed_file ''x.PNG'' = Inr True"
    by (simp add: allowed_file_def py_index_def rsplit1_def lower_def lower_char_def
        ALLOWED_EXTENSIONS_def)
next
  assume "CHR ''.'' \<notin> set fname"
  then show "allowed_file fname = Inr False" by (simp add: allowed_file_def)
qed

theorem allowed_file_iff_witness:
  "allowed_file ''scan.Jpeg'' = Inr True \<and> allowed_file ''notes.txt'' = Inr False
   \<and> allowed_file ''png'' = Inr False"
proof -
  let ?A = "{''png'', ''jpg'', ''jpeg'', ''gif''}"
  have l: "lower ''Jpeg'' \<in> ?A" by (simp add: lower_def lower_char_def)
  have ex: "\<exists>stem ext. ''scan.Jpeg'' = stem @ CHR ''.'' # ext \<and> CHR ''.'' \<notin> set ext
              \<and> lower ext \<in> ?A"
    by (rule exI [of _ "''scan''"], rule exI [of _ "''Jpeg''"]) (use l in simp)
  have u: "ext = ''txt''" if "''notes.txt'' = stem @ CHR ''.'' # ext" "CHR ''.'' \<notin> set ext"
    for stem ext
    using rsplit1_unique [OF that] by (simp add: rsplit1_def)
  have lt: "lower ''txt'' \<notin> ?A" by (simp add: lower_def lower_char_def)
  have nex: "\<not> (\<exists>stem ext. ''notes.txt'' = stem @ CHR ''.'' # ext \<and> CHR ''.'' \<notin> set ext
              \<and> lower ext \<in> ?A)"
  proof
    assume "\<exists>stem ext. ''notes.txt'' = stem @ CHR ''.'' # ext \<and> CHR ''.'' \<notin> set ext
              \<and> lower ext \<in> ?A"
    then obtain stem ext where e: "''notes.txt'' = stem @ CHR ''.'' # ext"
      "CHR ''.'' \<notin> set ext" "lower ext \<in> ?A"
      by blast
    from u [OF e(1,2)] e(3) lt show False by simp
  qed
  have 1: "allowed_file ''scan.Jpeg'' = Inr True"
    using allowed_file_iff [of "''scan.Jpeg''", THEN conjunct1] ex by (simp only: )
  have 2: "allowed_file ''notes.txt'' = Inr False"
    using allowed_file_iff [of "''notes.txt''", THEN conjunct1] nex by (simp only: )
  have d: "CHR ''.'' \<notin> set ''png''" by simp
  have 3: "allowed_file ''png'' = Inr False"
    using allowed_file_iff [of "''png''", THEN conjunct2, THEN conjunct2] d by (rule mp)
  from 1 2 3 show ?thesis by (simp only: simp_thms)
qed

section \<open>The handlers of api.py leave the model alone\<close>

lemma loads_append: "loads (xs @ ys) = loads xs @ loads ys"
  by (induction xs rule: loads.induct) simp_all

lemma analyze_image_keeps:
  "model (snd (analyze_image L s p)) = model s"
  "model_files (snd (analyze_image L s p)) = model_files s"
  "loads (ops (snd (analyze_image L s p))) = loads (ops s)"
  by (simp_all add: analyze_image_def Let_def loads_append split: option.splits)

lemma analyze_keeps:
  "model (snd (analyze L amb s file)) = model s"
  "model_files (snd (analyze L amb s file)) = model_files s"
  "loads (ops (snd (analyze L amb s file))) = loads (ops s)"
proof -
  have k: "model (snd (analyze_image L t p)) = model t
         \<and> model_files (snd (analyze_image L t p)) = model_files t
         \<and> loads (ops (snd (analyze_image L t p))) = loads (ops t)" for t p
    by (simp add: analyze_image_keeps)
  show "model (snd (analyze L amb s file)) = model s"
    using k
    by (auto simp add: analyze_def Let_def split_beta loads_append
        split: option.splits sum.splits bool.splits prod.splits)
  show "model_files (snd (analyze L amb s file)) = model_files s"
    using k
    by (auto simp add: analyze_def Let_def split_beta loads_append
        split: option.splits sum.splits bool.splits prod.splits)
  show "loads (ops (snd (analyze L amb s file))) = loads (ops s)"
    using k
    by (auto simp add: analyze_def Let_def split_beta loads_append
        split: option.splits sum.splits bool.splits prod.splits)
qed

lemma handle_keeps:
  "model (snd (handle L s r)) = model s"
  "model_files (snd (handle L s r)) = model_files s"
  "loads (ops (snd (handle L s r))) = loads (ops s)"
  by (cases r; cases "snd r"; simp add: analyze_keeps)+

lemma serve_keeps:
  "model (snd (serve L s rs)) = model s
   \<and> model_files (snd (serve L s rs)) = model_files s
   \<and> loads (ops (snd (serve L s rs))) = loads (ops s)"
proof (induction rs arbitrary: s)
  case Nil
  show ?case by simp
next
  case (Cons r rs)
  obtain resp s1 where h: "handle L s r = (resp, s1)" by (cases "handle L s r")
  have s1: "model s1 = model s" "model_files s1 = model_files s" "loads (ops s1) = loads (ops s)"
    using handle_keeps [of L s r] h by simp_all
  show ?case using Cons.IH [of s1] s1 h by (simp add: split_beta)
qed


text \<open>
  What \<open>q2\<close> of app.py does with an upload: when it loads the model file, that it
  saves the upload whatever its extension, and when it goes on to predict.
\<close>

lemma q2_loads:
  "loads (app_ops (snd (q2 L save_ok pil_resave t method file)))
     = loads (app_ops t)
       @ (case file of
            None \<Rightarrow> []
          | Some (fname, content) \<Rightarrow>
              if method = POST \<and> fname \<noteq> '''' \<and> save_ok fname
                   \<and> pil_resave fname content \<noteq> None
              then [app_model_path] else [])"
  by (simp add: q2_def Let_def loads_append
      split: http_method.splits option.splits prod.splits sum.splits)

lemma q2_saves:
  assumes "fname \<noteq> ''''" and "save_ok fname"
  shows "\<exists>rest. app_ops (snd (q2 L save_ok pil_resave t POST (Some (fname, content))))
           = app_ops t @ SaveFile fname # rest"
  using assms by (simp add: q2_def Let_def split: option.splits sum.splits)

lemma q2_predicts:
  assumes "fname \<noteq> ''''" and "save_ok fname"
    and "pil_resave fname content = Some content'"
    and "app_model_files t app_model_path = Some m"
    and "load_img L content' (28, 28) = Some img"
  shows "app_ops (snd (q2 L save_ok pil_resave t POST (Some (fname, content))))
           = app_ops t @ [SaveFile fname, SaveFile fname, LoadModel app_model_path,
                          LoadImg fname, Predict]"
  using assms by (simp add: q2_def Let_def split: sum.splits)

text \<open>
  Claim C5, as amended. In api.py the model is loaded once, by the start-up code;
  no handler of api.py loads, replaces or changes it: after any sequence of
  requests the global \<open>model\<close> is the value the start-up left (the artifact
  stored under \<open>MODEL_PATH\<close>, or \<open>None\<close>), the model files are untouched, and the
  only model load performed is the one of the start-up. As this holds for every
  sequence, it holds for every prefix: each request reads the same artifact.
  The \<open>q2\<close> handler of app.py keeps no model between requests: it loads the
  model file inside the handler, exactly in the \<open>POST\<close> requests whose upload
  has a non-empty name, can be written to the upload directory and passes PIL's
  re-save, and in no other request.
\<close>

theorem serve_keeps_startup_model:
  "model (snd (serve L s rs)) = model s
   \<and> loads (ops (snd (serve L s rs))) = loads (ops s)
   \<and> model (snd (serve L (startup files disk) rs)) = disk MODEL_PATH
   \<and> model_files (snd (serve L (startup files disk) rs)) = disk
   \<and> loads (ops (snd (serve L (startup files disk) rs))) = [MODEL_PATH]
   \<and> loads (app_ops (snd (q2 L save_ok pil_resave t method file)))
       = loads (app_ops t)
         @ (case file of
              None \<Rightarrow> []
            | Some (fname, content) \<Rightarrow>
                if method = POST \<and> fname \<noteq> '''' \<and> save_ok fname
                   \<and> pil_resave fname content \<noteq> None
                then [app_model_path] else [])"
proof -
  have st: "model (startup files disk) = disk MODEL_PATH"
    "model_files (startup files disk) = disk"
    "loads (ops (startup files disk)) = [MODEL_PATH]"
    by (simp_all add: startup_def load_ml_model_def Let_def split: option.splits)
  show ?thesis
    using serve_keeps [of L s rs] serve_keeps [of L "startup files disk" rs] st
      q2_loads [of L save_ok pil_resave t "method" "file"]
    by (simp only: simp_thms)
qed

theorem serve_keeps_startup_model_witness:
  "model (snd (serve L0 (startup Map.empty [MODEL_PATH \<mapsto> m0])
      [(amb0, GET_health), (amb0, POST_analyze (Some (''mole.png'', [1, 2, 3]))), (amb0, GET_info)]))
   = Some m0
   \<and> loads (app_ops (snd (q2 L0 (\<lambda>name. True) pil0
        \<lparr>app_uploads = Map.empty, app_model_files = Map.empty, app_ops = []\<rparr>
        POST (Some (''notes.txt'', [1, 2, 3]))))) = []"
proof -
  let ?t = "\<lparr>app_uploads = Map.empty, app_model_files = Map.empty, app_ops = []\<rparr>"
  note w = serve_keeps_startup_model [of L0 "startup Map.empty [MODEL_PATH \<mapsto> m0]"
      "[(amb0, GET_health), (amb0, POST_analyze (Some (''mole.png'', [1, 2, 3]))), (amb0, GET_info)]"
      Map.empty "[MODEL_PATH \<mapsto> m0]" "\<lambda>name. True" pil0 ?t POST "Some (''notes.txt'', [1, 2, 3])"]
  have p: "pil0 ''notes.txt'' [1, 2, 3] = None"
    by (simp add: pil0_def rsplit1_def lower_def lower_char_def)
  have 1: "model (snd (serve L0 (startup Map.empty [MODEL_PATH \<mapsto> m0])
      [(amb0, GET_health), (amb0, POST_analyze (Some (''mole.png'', [1, 2, 3]))), (amb0, GET_info)]))
     = Some m0"
    using w [THEN conjunct2, THEN conjunct2, THEN conjunct1] by (simp only: fun_upd_same)
  have 2: "loads (app_ops (snd (q2 L0 (\<lambda>name. True) pil0 ?t POST (Some (''notes.txt'', [1, 2, 3]))))) = []"
    using w [THEN conjunct2, THEN conjunct2, THEN conjunct2, THEN conjunct2, THEN conjunct2] p
    by simp
  from 1 2 show ?thesis by (rule conjI)
qed

text \<open>
  The claim as stated covers the \<open>q2\<close> handler of app.py. A \<open>POST\<close> of a PNG
  upload makes it load the model file inside the handler, whether or not the
  file is there.
\<close>

theorem q2_loads_model_counterexample:
  "loads (app_ops (snd (q2 L0 (\<lambda>name. True) pil0
      \<lparr>app_uploads = Map.empty, app_model_files = [app_model_path \<mapsto> m0], app_ops = []\<rparr>
      POST (Some (''mole.png'', [1, 2, 3]))))) = [app_model_path]
   \<and> loads (app_ops (snd (q2 L0 (\<lambda>name. True) pil0
      \<lparr>app_uploads = Map.empty, app_model_files = Map.empty, app_ops = []\<rparr>
      POST (Some (''mole.png'', [1, 2, 3]))))) = [app_model_path]"
  by (simp add: q2_def L0_def pil0_def rsplit1_def lower_def lower_char_def Let_def
      split: sum.splits)

text \<open>
  Claim C7, as amended. For an upload whose filename fails the extension check,
  \<open>analyze\<close> of api.py leaves the state as it was (nothing saved, nothing
  decoded, no prediction) and answers with a failure body; the status is 400
  when a model is loaded and 503 when none is, because the model check comes
  first. \<open>q2\<close> of app.py has no extension check: such an upload, if its name
  is not empty and can be written, is saved under the name the client sent, and
  when PIL re-saves it, the model file loads and the picture decodes, \<open>q2\<close>
  decodes the picture and runs the prediction.
\<close>

theorem analyze_unsupported_extension:
  assumes "allowed_file fname = Inr False"
  shows "snd (analyze L amb s (Some (fname, content))) = s
    \<and> (\<exists>msg. fst (fst (analyze L amb s (Some (fname, content)))) = FailureBody msg)
    \<and> snd (fst (analyze L amb s (Some (fname, content)))) = (if model s = None then 503 else 400)
    \<and> (fname \<noteq> '''' \<longrightarrow> save_ok fname \<longrightarrow>
         (\<exists>rest. app_ops (snd (q2 L save_ok pil_resave t POST (Some (fname, content))))
                   = app_ops t @ SaveFile fname # rest))
    \<and> (fname \<noteq> '''' \<longrightarrow> save_ok fname \<longrightarrow> pil_resave fname content = Some content'
         \<longrightarrow> app_model_files t app_model_path = Some m
         \<longrightarrow> load_img L content' (28, 28) = Some img
         \<longrightarrow> app_ops (snd (q2 L save_ok pil_resave t POST (Some (fname, content))))
               = app_ops t @ [SaveFile fname, SaveFile fname, LoadModel app_model_path,
                              LoadImg fname, Predict])"
proof -
  have a: "snd (analyze L amb s (Some (fname, content))) = s
    \<and> (\<exists>msg. fst (fst (analyze L amb s (Some (fname, content)))) = FailureBody msg)
    \<and> snd (fst (analyze L amb s (Some (fname, content)))) = (if model s = None then 503 else 400)"
    using assms by (simp add: analyze_def)
  show ?thesis
    using a q2_saves [of fname save_ok L pil_resave t content]
      q2_predicts [of fname save_ok pil_resave content content' t m L img]
    by blast
qed

theorem analyze_unsupported_extension_witness:
  "allowed_file ''scan.bmp'' = Inr False
   \<and> analyze L0 amb0 \<lparr>model = Some m0, uploads = Map.empty, model_files = Map.empty, ops = []\<rparr>
        (Some (''scan.bmp'', [1, 2, 3]))
     = ((FailureBody ''Invalid file type. Allowed types: PNG, JPG, JPEG, GIF'', 400),
        \<lparr>model = Some m0, uploads = Map.empty, model_files = Map.empty, ops = []\<rparr>)
   \<and> app_ops (snd (q2 L0 (\<lambda>name. True) pil0
        \<lparr>app_uploads = Map.empty, app_model_files = [app_model_path \<mapsto> m0], app_ops = []\<rparr>
        POST (Some (''scan.bmp'', [1, 2, 3]))))
     = [SaveFile ''scan.bmp'', SaveFile ''scan.bmp'', LoadModel app_model_path,
        LoadImg ''scan.bmp'', Predict]"
proof -
  let ?s = "\<lparr>model = Some m0, uploads = Map.empty, model_files = Map.empty, ops = []\<rparr>"
  let ?t = "\<lparr>app_uploads = Map.empty, app_model_files = [app_model_path \<mapsto> m0], app_ops = []\<rparr>"
  have a: "allowed_file ''scan.bmp'' = Inr False"
    by (simp add: allowed_file_def py_index_def rsplit1_def lower_def lower_char_def
        ALLOWED_EXTENSIONS_def)
  note w = analyze_unsupported_extension [OF a, of L0 amb0 ?s "[1, 2, 3]" "\<lambda>name. True" pil0 ?t
      "[1, 2, 3]" m0
      "[1, 2, 3]"]
  have b: "fst (fst (analyze L0 amb0 ?s (Some (''scan.bmp'', [1, 2, 3]))))
      = FailureBody ''Invalid file type. Allowed types: PNG, JPG, JPEG, GIF''"
    using a by (simp add: analyze_def)
  have c: "analyze L0 amb0 ?s (Some (''scan.bmp'', [1, 2, 3]))
     = ((FailureBody ''Invalid file type. Allowed types: PNG, JPG, JPEG, GIF'', 400), ?s)"
    using w [THEN conjunct1] w [THEN conjunct2, THEN conjunct2, THEN conjunct1] b
    by (simp add: prod_eq_iff)
  have n: "''scan.bmp'' \<noteq> ''''" by simp
  have p: "pil0 ''scan.bmp'' [1, 2, 3] = Some [1, 2, 3]"
    by (simp add: pil0_def rsplit1_def lower_def lower_char_def)
  have f: "app_model_files ?t app_model_path = Some m0" by simp
  have l: "load_img L0 [1, 2, 3] (28, 28) = Some [1, 2, 3]" by (simp add: L0_def)
  have d: "app_ops (snd (q2 L0 (\<lambda>name. True) pil0 ?t POST (Some (''scan.bmp'', [1, 2, 3]))))
     = app_ops ?t @ [SaveFile ''scan.bmp'', SaveFile ''scan.bmp'', LoadModel app_model_path,
        LoadImg ''scan.bmp'', Predict]"
    using w [THEN conjunct2, THEN conjunct2, THEN conjunct2, THEN conjunct2] n p f l by blast
  from a c d show ?thesis by simp
qed

text \<open>
  The upload \<open>scan.bmp\<close> fails the extension check. \<open>q2\<close> of app.py saves it,
  decodes it, runs the prediction and answers 200. \<open>analyze\<close> of api.py with no
  model loaded answers it as service unavailable, not as a validation error.
\<close>

theorem analyze_unsupported_extension_counterexample:
  "allowed_file ''scan.bmp'' = Inr False
   \<and> snd (fst (q2 L0 (\<lambda>name. True) pil0
        \<lparr>app_uploads = Map.empty, app_model_files = [app_model_path \<mapsto> m0], app_ops = []\<rparr>
        POST (Some (''scan.bmp'', [1, 2, 3])))) = 200
   \<and> app_ops (snd (q2 L0 (\<lambda>name. True) pil0
        \<lparr>app_uploads = Map.empty, app_model_files = [app_model_path \<mapsto> m0], app_ops = []\<rparr>
        POST (Some (''scan.bmp'', [1, 2, 3]))))
     = [SaveFile ''scan.bmp'', SaveFile ''scan.bmp'', LoadModel app_model_path,
        LoadImg ''scan.bmp'', Predict]
   \<and> fst (analyze L0 amb0 \<lparr>model = None, uploads = Map.empty, model_files = Map.empty, ops = []\<rparr>
        (Some (''scan.bmp'', [1, 2, 3])))
     = (FailureBody ''Model not loaded. Please contact administrator.'', 503)"
proof -
  have a: "allowed_file ''scan.bmp'' = Inr False"
    by (simp add: allowed_file_def py_index_def rsplit1_def lower_def lower_char_def
        ALLOWED_EXTENSIONS_def)
  have p: "pil0 ''scan.bmp'' [1, 2, 3] = Some [1, 2, 3]"
    by (simp add: pil0_def rsplit1_def lower_def lower_char_def)
  have n: "\<exists>k. np_argmax (predict m0 (vstack [expand_dims (img_to_array [1, 2, 3])])) = Inr k"
    by (simp add: np_argmax_def predict_def vstack_def expand_dims_def m0_def softmax_def)
  then obtain k where k: "np_argmax (predict m0 (vstack [expand_dims (img_to_array [1, 2, 3])])) = Inr k"
    by blast
  have q: "snd (fst (q2 L0 (\<lambda>name. True) pil0
        \<lparr>app_uploads = Map.empty, app_model_files = [app_model_path \<mapsto> m0], app_ops = []\<rparr>
        POST (Some (''scan.bmp'', [1, 2, 3])))) = 200
   \<and> app_ops (snd (q2 L0 (\<lambda>name. True) pil0
        \<lparr>app_uploads = Map.empty, app_model_files = [app_model_path \<mapsto> m0], app_ops = []\<rparr>
        POST (Some (''scan.bmp'', [1, 2, 3]))))
     = [SaveFile ''scan.bmp'', SaveFile ''scan.bmp'', LoadModel app_model_path,
        LoadImg ''scan.bmp'', Predict]"
    using p k by (simp add: q2_def L0_def Let_def)
  have s: "fst (analyze L0 amb0 \<lparr>model = None, uploads = Map.empty, model_files = Map.empty, ops = []\<rparr>
        (Some (''scan.bmp'', [1, 2, 3])))
     = (FailureBody ''Model not loaded. Please contact administrator.'', 503)"
    by (simp add: analyze_def)
  from a q s show ?thesis by simp
qed

text \<open>
  Claim C9. The health check answers 200 with status \<open>healthy\<close> in every state;
  whether a model is loaded shows only in the \<open>model_loaded\<close> field. After a
  start-up and any sequence of requests that field says whether the model file
  was there at start-up, and a failed load makes \<open>load_ml_model\<close> return \<open>False\<close>.
\<close>

theorem health_check_always_healthy:
  "health_check amb s = (HealthBody ''healthy'' (model s \<noteq> None) (isoformat_now amb) ''1.0.0'', 200)
   \<and> fst (handle L (snd (serve L (startup files disk) rs)) (amb, GET_health))
       = (HealthBody ''healthy'' (disk MODEL_PATH \<noteq> None) (isoformat_now amb) ''1.0.0'', 200)
   \<and> (disk MODEL_PATH = None \<longrightarrow> fst (load_ml_model
          \<lparr>model = None, uploads = files, model_files = disk, ops = []\<rparr>) = False)"
proof -
  have st: "model (startup files disk) = disk MODEL_PATH"
    by (simp add: startup_def load_ml_model_def Let_def split: option.splits)
  have "model (snd (serve L (startup files disk) rs)) = disk MODEL_PATH"
    using serve_keeps [of L "startup files disk" rs] st by simp
  then show ?thesis
    by (simp add: health_check_def load_ml_model_def Let_def)
qed

theorem health_check_always_healthy_witness:
  "fst (handle L0 (snd (serve L0 (startup Map.empty Map.empty)
       [(amb0, POST_analyze (Some (''mole.png'', [1, 2, 3])))])) (amb0, GET_health))
       = (HealthBody ''healthy'' False ''2024-01-01T00:00:00'' ''1.0.0'', 200)
   \<and> fst (load_ml_model \<lparr>model = None, uploads = Map.empty, model_files = Map.empty, ops = []\<rparr>) = False"
  using health_check_always_healthy [of amb0 "startup Map.empty Map.empty" L0 Map.empty Map.empty
      "[(amb0, POST_analyze (Some (''mole.png'', [1, 2, 3])))]", THEN conjunct2]
  by (simp add: amb0_def del: serve.simps handle.simps)

section \<open>The prediction result\<close>

lemma softmax_length: "length (softmax zs) = length zs"
  by (simp add: softmax_def)

lemma sum_list_exp_pos: "zs \<noteq> [] \<Longrightarrow> 0 < (\<Sum>y\<leftarrow>zs. exp (y::real))"
proof (cases zs)
  case Nil
  assume "zs \<noteq> []"
  with Nil show ?thesis by simp
next
  case (Cons a as)
  have "0 \<le> (\<Sum>y\<leftarrow>as. exp y)" by (rule sum_list_nonneg) auto
  moreover have "0 < exp a" by simp
  ultimately show ?thesis unfolding Cons by (simp add: add_pos_nonneg)
qed

lemma softmax_sum: "zs \<noteq> [] \<Longrightarrow> sum_list (softmax zs) = 1"
proof -
  assume ne: "zs \<noteq> []"
  let ?S = "\<Sum>y\<leftarrow>zs. exp y"
  have pos: "0 < ?S" using ne by (rule sum_list_exp_pos)
  have "sum_list (softmax zs) = (\<Sum>z\<leftarrow>zs. exp z * (1 / ?S))"
    by (simp add: softmax_def)
  also have "\<dots> = ?S * (1 / ?S)"
    by (simp only: sum_list_mult_const)
  also have "\<dots> = 1" using pos by simp
  finally show ?thesis .
qed

lemma argmax_from_spec:
  assumes "length pre = i" and "best < i" and "pre ! best = bv"
    and "\<forall>j<i. pre ! j \<le> bv" and "\<forall>j<best. pre ! j < bv"
  shows "argmax_from best bv i ys < length (pre @ ys)
    \<and> (\<forall>j<length (pre @ ys). (pre @ ys) ! j \<le> (pre @ ys) ! argmax_from best bv i ys)
    \<and> (\<forall>j<argmax_from best bv i ys. (pre @ ys) ! j < (pre @ ys) ! argmax_from best bv i ys)"
  using assms
proof (induction ys arbitrary: pre best bv i)
  case Nil
  then show ?case by auto
next
  case (Cons y ys)
  show ?case
  proof (cases "bv < y")
    case True
    have "argmax_from i y (Suc i) ys < length ((pre @ [y]) @ ys)
      \<and> (\<forall>j<length ((pre @ [y]) @ ys). ((pre @ [y]) @ ys) ! j \<le> ((pre @ [y]) @ ys) ! argmax_from i y (Suc i) ys)
      \<and> (\<forall>j<argmax_from i y (Suc i) ys. ((pre @ [y]) @ ys) ! j < ((pre @ [y]) @ ys) ! argmax_from i y (Suc i) ys)"
    proof (rule Cons.IH)
      show "length (pre @ [y]) = Suc i" using Cons.prems by simp
      show "i < Suc i" by simp
      show "(pre @ [y]) ! i = y" using Cons.prems by (simp add: nth_append)
      show "\<forall>j<Suc i. (pre @ [y]) ! j \<le> y"
        using Cons.prems True by (auto simp: nth_append less_Suc_eq intro: less_imp_le order_trans)
      show "\<forall>j<i. (pre @ [y]) ! j < y"
        using Cons.prems True by (auto simp: nth_append intro: le_less_trans)
    qed
    with True show ?thesis by simp
  next
    case False
    have "argmax_from best bv (Suc i) ys < length ((pre @ [y]) @ ys)
      \<and> (\<forall>j<length ((pre @ [y]) @ ys). ((pre @ [y]) @ ys) ! j \<le> ((pre @ [y]) @ ys) ! argmax_from best bv (Suc i) ys)
      \<and> (\<forall>j<argmax_from best bv (Suc i) ys. ((pre @ [y]) @ ys) ! j < ((pre @ [y]) @ ys) ! argmax_from best bv (Suc i) ys)"
    proof (rule Cons.IH)
      show "length (pre @ [y]) = Suc i" using Cons.prems by simp
      show "best < Suc i" using Cons.prems by simp
      show "(pre @ [y]) ! best = bv" using Cons.prems by (simp add: nth_append)
      show "\<forall>j<Suc i. (pre @ [y]) ! j \<le> bv"
        using Cons.prems False by (auto simp: nth_append less_Suc_eq)
      show "\<forall>j<best. (pre @ [y]) ! j < bv"
        using Cons.prems by (auto simp: nth_append)
    qed
    with False show ?thesis by simp
  qed
qed

lemma np_argmax_row:
  assumes "row \<noteq> []"
  shows "\<exists>k. np_argmax [row] = Inr k \<and> k < length row
     \<and> (\<forall>j<length row. row ! j \<le> row ! k) \<and> (\<forall>j<k. row ! j < row ! k)"
proof -
  from assms obtain x xs where r: "row = x # xs" by (cases row) auto
  have "argmax_from 0 x 1 xs < length ([x] @ xs)
    \<and> (\<forall>j<length ([x] @ xs). ([x] @ xs) ! j \<le> ([x] @ xs) ! argmax_from 0 x 1 xs)
    \<and> (\<forall>j<argmax_from 0 x 1 xs. ([x] @ xs) ! j < ([x] @ xs) ! argmax_from 0 x 1 xs)"
    by (rule argmax_from_spec) simp_all
  then show ?thesis by (simp add: np_argmax_def r)
qed

lemma np_max_row:
  assumes "row \<noteq> []"
  shows "np_max [row] = Inr (Max (set row))"
proof -
  from assms obtain x xs where r: "row = x # xs" by (cases row) auto
  show ?thesis using Max.set_eq_fold [of x xs] by (simp add: np_max_def r)
qed

lemma Max_is_nth:
  fixes row :: "real list"
  assumes "k < length row" and "\<forall>j<length row. row ! j \<le> row ! k"
  shows "Max (set row) = row ! k"
proof (rule Max_eqI)
  show "finite (set row)" by simp
  show "row ! k \<in> set row" using assms(1) by simp
  fix y assume "y \<in> set row"
  then obtain j where "j < length row" "row ! j = y" by (auto simp: in_set_conv_nth)
  with assms(2) show "y \<le> row ! k" by auto
qed

lemma list8:
  assumes "length xs = 8"
  shows "\<exists>a b c d e f g h. xs = [a, b, c, d, e, f, g, h]"
  using assms by (simp add: numeral_eq_Suc length_Suc_conv) blast

lemma upt8: "[0..<8] = [0, 1, 2, 3, 4, 5, 6, 7]"
  by (simp add: upt_rec)


lemma lt8: "(i::nat) < 8 \<longleftrightarrow> i = 0 \<or> i = 1 \<or> i = 2 \<or> i = 3 \<or> i = 4 \<or> i = 5 \<or> i = 6 \<or> i = 7"
  by arith

lemma build_probabilities_row:
  assumes "length row = 8"
  shows "\<exists>probs. build_probabilities Map.empty (py_enumerate row) = Inr probs
     \<and> dom probs = set (map (\<lambda>i. the (CANCER_CLASSES i)) [0..<8])
     \<and> card (dom probs) = 8
     \<and> (\<forall>i<8. \<exists>name. CANCER_CLASSES i = Some name \<and> probs name = Some (row ! i))
     \<and> (\<Sum>name\<in>dom probs. the (probs name)) = sum_list row"
proof -
  from list8 [OF assms] obtain a b c d e f g h where r: "row = [a, b, c, d, e, f, g, h]"
    by blast
  define probs where "probs = [''Actinic keratoses and intraepithelial carcinomae'' \<mapsto> a,
      ''Basal Cell Carcinoma'' \<mapsto> b, ''Benign Keratosis'' \<mapsto> c, ''Dermatofibroma'' \<mapsto> d,
      ''Melanocytic nevus'' \<mapsto> e, ''Vascular Lesion'' \<mapsto> f, ''Melanoma'' \<mapsto> g,
      ''No Cancer Detected'' \<mapsto> h]"
  have b: "build_probabilities Map.empty (py_enumerate row) = Inr probs"
    by (simp add: r py_enumerate_def upt8 CANCER_CLASSES_def probs_def)
  have d: "dom probs = set (map (\<lambda>i. the (CANCER_CLASSES i)) [0..<8])"
    by (simp add: upt8 CANCER_CLASSES_def probs_def insert_commute)
  have c: "card (dom probs) = 8"
    by (simp add: probs_def)
  have l: "\<forall>i<8. \<exists>name. CANCER_CLASSES i = Some name \<and> probs name = Some (row ! i)"
    by (simp add: lt8 r CANCER_CLASSES_def probs_def)
  have s: "(\<Sum>name\<in>dom probs. the (probs name)) = sum_list row"
    by (simp add: probs_def r)
  from b d c l s show ?thesis by blast
qed


lemma CANCER_INFO_defined: "k < 8 \<Longrightarrow> \<exists>info. CANCER_INFO k = Some info"
  by (auto simp add: lt8 CANCER_INFO_def)

lemma make_result_row:
  assumes "length row = 8"
  shows "\<exists>r. make_result [row] = Inr r
     \<and> card (dom (probabilities r)) = 8
     \<and> dom (probabilities r) = set (map (\<lambda>i. the (CANCER_CLASSES i)) [0..<8])
     \<and> (\<forall>i<8. \<exists>name. CANCER_CLASSES i = Some name \<and> probabilities r name = Some (row ! i))
     \<and> (\<Sum>name\<in>dom (probabilities r). the (probabilities r name)) = sum_list row
     \<and> diagnosis_class r < 8
     \<and> (\<forall>i<8. row ! i \<le> row ! diagnosis_class r)
     \<and> (\<forall>i<diagnosis_class r. row ! i < row ! diagnosis_class r)
     \<and> confidence r = row ! diagnosis_class r
     \<and> confidence r = Max (set row)"
proof -
  have ne: "row \<noteq> []" using assms by auto
  from np_argmax_row [OF ne] obtain k where
    k: "np_argmax [row] = Inr k" "k < length row" "\<forall>j<length row. row ! j \<le> row ! k"
       "\<forall>j<k. row ! j < row ! k"
    by blast
  have mx: "np_max [row] = Inr (Max (set row))" using ne by (rule np_max_row)
  have mk: "Max (set row) = row ! k" using k(2,3) by (rule Max_is_nth)
  from build_probabilities_row [OF assms] obtain probs where
    p: "build_probabilities Map.empty (py_enumerate row) = Inr probs"
       "dom probs = set (map (\<lambda>i. the (CANCER_CLASSES i)) [0..<8])"
       "card (dom probs) = 8"
       "\<forall>i<8. \<exists>name. CANCER_CLASSES i = Some name \<and> probs name = Some (row ! i)"
       "(\<Sum>name\<in>dom probs. the (probs name)) = sum_list row"
    by blast
  have k8: "k < 8" using k(2) assms by simp
  from CANCER_INFO_defined [OF k8] obtain info where i: "CANCER_INFO k = Some info" by blast
  define r where "r = \<lparr>diagnosis_class = k,
             diagnosis = (case CANCER_CLASSES k of Some n \<Rightarrow> n | None \<Rightarrow> ''Unknown''),
             confidence = Max (set row),
             severity = info_severity info,
             description = info_description info,
             recommendation = info_recommendation info,
             probabilities = probs\<rparr>"
  have m: "make_result [row] = Inr r"
    by (simp add: make_result_def k(1) mx py_index_def p(1) i r_def)
  have f: "diagnosis_class r = k" "confidence r = Max (set row)" "probabilities r = probs"
    by (simp_all add: r_def)
  show ?thesis
  proof (intro exI [of _ r] conjI)
    show "make_result [row] = Inr r" by (rule m)
    show "card (dom (probabilities r)) = 8" using p(3) f by simp
    show "dom (probabilities r) = set (map (\<lambda>i. the (CANCER_CLASSES i)) [0..<8])"
      using p(2) f by simp
    show "\<forall>i<8. \<exists>name. CANCER_CLASSES i = Some name \<and> probabilities r name = Some (row ! i)"
      using p(4) f by simp
    show "(\<Sum>name\<in>dom (probabilities r). the (probabilities r name)) = sum_list row"
      using p(5) f by simp
    show "diagnosis_class r < 8" using k8 f by simp
    show "\<forall>i<8. row ! i \<le> row ! diagnosis_class r" using k(3) assms f by simp
    show "\<forall>i<diagnosis_class r. row ! i < row ! diagnosis_class r" using k(4) f by simp
    show "confidence r = row ! diagnosis_class r" using mk f by simp
    show "confidence r = Max (set row)" using f by simp
  qed
qed

text \<open>
  Claim C3. For a stored upload that decodes, analysed with a loaded model whose
  classifier layer has 8 units, \<open>analyze_image\<close> succeeds; \<open>probabilities\<close> has 8
  entries, one under each class name, holding the softmax output \<open>p\<close>; the
  entries sum to 1 (exactly, over the reals); \<open>diagnosis_class\<close> is the first
  index of the maximum of \<open>p\<close> and \<open>confidence\<close> is that maximum.
\<close>

theorem analyze_image_prediction:
  assumes "uploads s path = Some content"
    and "load_img L content (IMG_WIDTH, IMG_HEIGHT) = Some img"
    and "model s = Some m"
    and "length (logits m (img_to_array img)) = 8"
    and "p = softmax (logits m (img_to_array img))"
  shows "\<exists>r. fst (analyze_image L s path) = Inr r
     \<and> card (dom (probabilities r)) = 8
     \<and> dom (probabilities r) = set (map (\<lambda>i. the (CANCER_CLASSES i)) [0..<8])
     \<and> (\<forall>i<8. \<exists>name. CANCER_CLASSES i = Some name \<and> probabilities r name = Some (p ! i))
     \<and> (\<Sum>name\<in>dom (probabilities r). the (probabilities r name)) = 1
     \<and> diagnosis_class r < 8
     \<and> (\<forall>i<8. p ! i \<le> p ! diagnosis_class r)
     \<and> (\<forall>i<diagnosis_class r. p ! i < p ! diagnosis_class r)
     \<and> confidence r = p ! diagnosis_class r
     \<and> confidence r = Max (set p)"
proof -
  have len: "length p = 8" using assms(4,5) by (simp add: softmax_length)
  have "logits m (img_to_array img) \<noteq> []" using assms(4) by auto
  then have one: "sum_list p = 1" unfolding assms(5) by (rule softmax_sum)
  have run: "fst (analyze_image L s path) = make_result [p]"
    using assms
    by (simp add: analyze_image_def Let_def predict_def expand_dims_def vstack_def)
  from make_result_row [OF len] show ?thesis
    unfolding run one .
qed

theorem analyze_image_prediction_witness:
  "\<exists>r. fst (analyze_image L0
        \<lparr>model = Some m0, uploads = [''mole.png'' \<mapsto> [1, 2, 3]], model_files = Map.empty, ops = []\<rparr>
        ''mole.png'') = Inr r
     \<and> card (dom (probabilities r)) = 8
     \<and> (\<Sum>name\<in>dom (probabilities r). the (probabilities r name)) = 1
     \<and> diagnosis_class r < 8
     \<and> confidence r = Max (set (softmax [0, 0, 0, 0, 0, 0, 0, 1]))"
proof -
  let ?s = "\<lparr>model = Some m0, uploads = [''mole.png'' \<mapsto> [1, 2, 3]], model_files = Map.empty, ops = []\<rparr>"
  have 1: "uploads ?s ''mole.png'' = Some [1, 2, 3]" by simp
  have 2: "load_img L0 [1, 2, 3] (IMG_WIDTH, IMG_HEIGHT) = Some [1, 2, 3]" by (simp add: L0_def)
  have 3: "model ?s = Some m0" by simp
  have 4: "length (logits m0 (img_to_array [1, 2, 3])) = 8" by (simp add: m0_def)
  have 5: "softmax [0, 0, 0, 0, 0, 0, 0, 1] = softmax (logits m0 (img_to_array [1, 2, 3]))"
    by (simp add: m0_def)
  from analyze_image_prediction [OF 1 2 3 4 5] show ?thesis by blast
qed

section \<open>Network topology and preprocessing\<close>

text \<open>
  Claim C8, as amended. The dense layers of the network are, in order, of widths
  256, 128, 64, 32 and 8. Each of the four hidden ones, the 32-unit layer
  included, is followed by batch normalization; the 32-unit layer is the only
  one with a kernel regularizer, an \<open>L1L2\<close> built without arguments; the 8-unit
  classifier is the last layer.
\<close>

theorem network_dense_layers:
  "dense_layers network =
     [(256, None, Some BatchNormalization),
      (128, None, Some BatchNormalization),
      (64, None, Some BatchNormalization),
      (32, Some (L1L2 None None), Some BatchNormalization),
      (8, None, None)]"
  by (simp add: network_def)

text \<open>
  The 32-unit layer, which the claim says is not followed by batch
  normalization, is followed by it.
\<close>

theorem last_hidden_layer_counterexample:
  "(32, Some (L1L2 None None), Some BatchNormalization) \<in> set (dense_layers network)"
  by (simp add: network_def)

lemma serve_batch_eq: "serve_batch img = [map real img]"
  by (simp add: serve_batch_def vstack_def expand_dims_def img_to_array_def)

text \<open>
  Claim C1, as amended. The two generators are configured with the same rescale
  factor, 1/255, and the evaluate-time generator has no geometric perturbation
  (the train-time one has). The serve path applies neither a geometric
  perturbation nor a rescale: the batch handed to the model holds the decoded
  channel values as they are. That batch equals the rescaled array of the
  evaluate-time generator only for a picture whose values are all 0.
\<close>

theorem serve_preprocessing_unscaled:
  "rescale datagen = rescale testgen
   \<and> rescale testgen = 1 / 255
   \<and> geometric_free testgen
   \<and> \<not> geometric_free datagen
   \<and> serve_batch img = [map real img]
   \<and> (serve_batch img = [standardize testgen (img_to_array img)] \<longleftrightarrow> (\<forall>v\<in>set img. v = 0))
   \<and> (uploads s path = Some content \<longrightarrow> load_img L content (IMG_WIDTH, IMG_HEIGHT) = Some img
        \<longrightarrow> model s = Some m
        \<longrightarrow> fst (analyze_image L s path) = make_result (predict m (serve_batch img)))"
proof -
  have "(map real img = map (\<lambda>v. v * (1 / 255)) (map real img)) \<longleftrightarrow> (\<forall>v\<in>set img. v = 0)"
    by (induction img) auto
  then have e: "serve_batch img = [standardize testgen (img_to_array img)] \<longleftrightarrow> (\<forall>v\<in>set img. v = 0)"
    by (simp add: serve_batch_eq standardize_def testgen_def img_to_array_def)
  have a: "uploads s path = Some content \<longrightarrow> load_img L content (IMG_WIDTH, IMG_HEIGHT) = Some img
        \<longrightarrow> model s = Some m
        \<longrightarrow> fst (analyze_image L s path) = make_result (predict m (serve_batch img))"
    by (simp add: analyze_image_def Let_def serve_batch_def)
  show ?thesis
    using e a by (simp add: datagen_def testgen_def geometric_free_def serve_batch_eq)
qed

theorem serve_preprocessing_unscaled_witness:
  "serve_batch [0, 0, 0] = [standardize testgen (img_to_array [0, 0, 0])]
   \<and> serve_batch [255, 0, 128] = [[255, 0, 128]]
   \<and> fst (analyze_image L0
        \<lparr>model = Some m0, uploads = [''mole.png'' \<mapsto> [255, 0, 128]], model_files = Map.empty, ops = []\<rparr>
        ''mole.png'') = make_result (predict m0 (serve_batch [255, 0, 128]))"
proof -
  let ?s = "\<lparr>model = Some m0, uploads = [''mole.png'' \<mapsto> [255, 0, 128]], model_files = Map.empty, ops = []\<rparr>"
  note t0 = serve_preprocessing_unscaled [of "[0, 0, 0]" ?s "''mole.png''" "[]" L0 m0]
  note t1 = serve_preprocessing_unscaled [of "[255, 0, 128]" ?s "''mole.png''" "[255, 0, 128]" L0 m0]
  have z: "\<forall>v\<in>set [0, 0, 0::nat]. v = 0" by simp
  have 1: "serve_batch [0, 0, 0] = [standardize testgen (img_to_array [0, 0, 0])]"
    using t0 z by blast
  have "serve_batch [255, 0, 128] = [map real [255, 0, 128]]"
    using t1 by blast
  then have 2: "serve_batch [255, 0, 128] = [[255, 0, 128]]" by simp
  have u: "uploads ?s ''mole.png'' = Some [255, 0, 128]" by simp
  have l: "load_img L0 [255, 0, 128] (IMG_WIDTH, IMG_HEIGHT) = Some [255, 0, 128]"
    by (simp add: L0_def)
  have m: "model ?s = Some m0" by simp
  have 3: "fst (analyze_image L0 ?s ''mole.png'') = make_result (predict m0 (serve_batch [255, 0, 128]))"
    using t1 u l m by blast
  from 1 2 3 show ?thesis by blast
qed

text \<open>
  A one-value picture with the value 255: the serve path hands 255 to the model,
  the evaluate-time generator would hand 1.
\<close>

theorem serve_rescale_counterexample:
  "serve_batch [255] = [[255]] \<and> [standardize testgen (img_to_array [255])] = [[1]]
   \<and> serve_batch [255] \<noteq> [standardize testgen (img_to_array [255])]"
  by (simp add: serve_batch_eq standardize_def testgen_def img_to_array_def)

section \<open>The confusion matrix\<close>

lemma classes_labels_eq: "classes_labels = [4, 6, 2, 1, 5, 0, 3, 7]"
  by (simp add: classes_labels_def classes_def)

lemma indicator_sum:
  "distinct ls \<Longrightarrow> (\<Sum>p\<leftarrow>ls. if b = p then (1::nat) else 0) = (if b \<in> set ls then 1 else 0)"
  by (induction ls) auto

lemma row_sum:
  assumes "distinct ls" and "\<forall>(a, b)\<in>set zs. b \<in> set ls"
  shows "(\<Sum>p\<leftarrow>ls. length (filter (\<lambda>(a, b). a = t \<and> b = p) zs))
           = length (filter (\<lambda>(a, b). a = t) zs)"
  using assms(2)
proof (induction zs)
  case Nil
  show ?case by simp
next
  case (Cons z zs)
  obtain a b where z: "z = (a, b)" by (cases z)
  have b: "b \<in> set ls" using Cons.prems z by simp
  have ih: "(\<Sum>p\<leftarrow>ls. length (filter (\<lambda>(a, b). a = t \<and> b = p) zs))
           = length (filter (\<lambda>(a, b). a = t) zs)"
    using Cons by simp
  have "(\<Sum>p\<leftarrow>ls. length (filter (\<lambda>(a, b). a = t \<and> b = p) (z # zs)))
      = (\<Sum>p\<leftarrow>ls. (if a = t then (if b = p then 1 else 0) else 0)
            + length (filter (\<lambda>(a, b). a = t \<and> b = p) zs))"
    by (rule arg_cong [where f = sum_list], rule map_cong) (auto simp: z)
  also have "\<dots> = (\<Sum>p\<leftarrow>ls. if a = t then (if b = p then 1 else 0) else 0)
            + (\<Sum>p\<leftarrow>ls. length (filter (\<lambda>(a, b). a = t \<and> b = p) zs))"
    by (simp only: sum_list_addf)
  also have "(\<Sum>p\<leftarrow>ls. if a = t then (if b = p then 1 else 0) else 0) = (if a = t then 1 else (0::nat))"
    using indicator_sum [OF assms(1), of b] b by (cases "a = t") simp_all
  finally show ?case using ih by (simp add: z)
qed

lemma filter_zip_count:
  "length xs = length ys \<Longrightarrow> length (filter (\<lambda>(a, b). a = t) (zip xs ys)) = count_list xs t"
  by (induction xs ys rule: list_induct2) auto

text \<open>
  Claim C4, as amended. For true and predicted labels of equal length, the
  predictions below 8, the confusion matrix is 8 by 8; its rows and its columns
  are ordered as the keys of \<open>classes\<close> are written, 4, 6, 2, 1, 5, 0, 3, 7; entry
  \<open>(i, j)\<close> counts the samples with true label the \<open>i\<close>-th and predicted label
  the \<open>j\<close>-th of these; and the sum of row \<open>i\<close> is the number of true labels
  equal to the \<open>i\<close>-th of these.
\<close>

theorem confusion_matrix_shape:
  assumes "length y_true = length y_pred" and "\<forall>p\<in>set y_pred. p < 8"
  shows "\<exists>m. cm y_true y_pred = Inr m
     \<and> length m = 8
     \<and> (\<forall>row\<in>set m. length row = 8)
     \<and> (\<forall>i<8. \<forall>j<8. m ! i ! j =
            length (filter (\<lambda>(a, b). a = [4, 6, 2, 1, 5, 0, 3, 7] ! i \<and> b = [4, 6, 2, 1, 5, 0, 3, 7] ! j)
                      (zip y_true y_pred)))
     \<and> (\<forall>i<8. sum_list (m ! i) = count_list y_true ([4, 6, 2, 1, 5, 0, 3, 7] ! i))"
proof -
  let ?ls = "[4, 6, 2, 1, 5, 0, 3, 7] :: nat list"
  let ?zs = "zip y_true y_pred"
  let ?row = "\<lambda>t. map (\<lambda>p. length (filter (\<lambda>(a, b). a = t \<and> b = p) ?zs)) ?ls"
  let ?m = "map ?row ?ls"
  have m: "cm y_true y_pred = Inr ?m"
    using assms(1) by (simp add: cm_def confusion_matrix_def classes_labels_eq)
  have d: "distinct ?ls" by simp
  have "\<forall>p\<in>set y_pred. p \<in> set ?ls"
    using assms(2) by (auto simp: lt8)
  then have inl: "\<forall>(a, b)\<in>set ?zs. b \<in> set ?ls"
    by (auto dest: set_zip_rightD)
  have rs: "sum_list (?row t) = count_list y_true t" for t
    using row_sum [OF d inl, of t] filter_zip_count [OF assms(1), of t] by simp
  have len: "length ?ls = 8" by simp
  have 1: "length ?m = 8" by simp
  have 2: "\<forall>row\<in>set ?m. length row = 8" by simp
  have 3: "\<forall>i<8. \<forall>j<8. ?m ! i ! j =
            length (filter (\<lambda>(a, b). a = ?ls ! i \<and> b = ?ls ! j) ?zs)"
  proof (intro allI impI)
    fix i j :: nat assume i: "i < 8" and j: "j < 8"
    have "?m ! i = ?row (?ls ! i)" using i len by (simp only: nth_map)
    moreover have "?row (?ls ! i) ! j = length (filter (\<lambda>(a, b). a = ?ls ! i \<and> b = ?ls ! j) ?zs)"
      using j len by (simp only: nth_map)
    ultimately show "?m ! i ! j = length (filter (\<lambda>(a, b). a = ?ls ! i \<and> b = ?ls ! j) ?zs)"
      by simp
  qed
  have 4: "\<forall>i<8. sum_list (?m ! i) = count_list y_true (?ls ! i)"
  proof (intro allI impI)
    fix i :: nat assume i: "i < 8"
    have "?m ! i = ?row (?ls ! i)" using i len by (simp only: nth_map)
    then show "sum_list (?m ! i) = count_list y_true (?ls ! i)" using rs by simp
  qed
  from m 1 2 3 4 show ?thesis by blast
qed

theorem confusion_matrix_shape_witness:
  "\<exists>m. cm [0, 4, 4] [0, 4, 6] = Inr m \<and> length m = 8
     \<and> sum_list (m ! 0) = count_list [0, 4, 4::nat] 4
     \<and> sum_list (m ! 5) = count_list [0, 4, 4::nat] 0"
proof -
  have 1: "length [0, 4, 4::nat] = length [0, 4, 6::nat]" by simp
  have 2: "\<forall>p\<in>set [0, 4, 6::nat]. p < 8" by simp
  from confusion_matrix_shape [OF 1 2] obtain m where
    m: "cm [0, 4, 4] [0, 4, 6] = Inr m" "length m = 8"
       "\<forall>i<8. sum_list (m ! i) = count_list [0, 4, 4::nat] ([4, 6, 2, 1, 5, 0, 3, 7] ! i)"
    by blast
  have "sum_list (m ! 0) = count_list [0, 4, 4::nat] 4" using m(3) [rule_format, of 0] by simp
  moreover have "sum_list (m ! 5) = count_list [0, 4, 4::nat] 0" using m(3) [rule_format, of 5] by simp
  ultimately show ?thesis using m(1,2) by blast
qed

text \<open>
  One sample of class 0, predicted as class 0: with rows and columns in the order
  0 to 7 the count would stand at row 0, column 0; it stands at row 5, column 5,
  and row 0 sums to 0 although class 0 has one true label.
\<close>

theorem confusion_matrix_order_counterexample:
  "classes_labels = [4, 6, 2, 1, 5, 0, 3, 7]
   \<and> cm [0] [0] = Inr
       [[0, 0, 0, 0, 0, 0, 0, 0],
        [0, 0, 0, 0, 0, 0, 0, 0],
        [0, 0, 0, 0, 0, 0, 0, 0],
        [0, 0, 0, 0, 0, 0, 0, 0],
        [0, 0, 0, 0, 0, 0, 0, 0],
        [0, 0, 0, 0, 0, 1, 0, 0],
        [0, 0, 0, 0, 0, 0, 0, 0],
        [0, 0, 0, 0, 0, 0, 0, 0]]
   \<and> count_list [0::nat] 0 = 1"
  by (simp add: classes_labels_eq cm_def confusion_matrix_def)

section \<open>The train/test split\<close>

lemma n_test_quarter: "nat \<lceil>(1 / 4 :: rat) * of_nat n\<rceil> = (n + 3) div 4"
proof -
  have "\<lceil>(1 / 4 :: rat) * of_nat n\<rceil> = \<lceil>of_int (int n) / (of_int 4 :: rat)\<rceil>" by simp
  also have "\<dots> = - (- int n div 4)" by (simp only: ceiling_divide_eq_div)
  also have "\<dots> = int ((n + 3) div 4)" by (simp add: zdiv_int)
  finally show ?thesis by simp
qed


lemma n_test_quarter': "nat \<lceil>rat_of_nat n / 4\<rceil> = (n + 3) div 4"
  using n_test_quarter [of n] by simp

lemma perm_length:
  assumes "distinct p" and "set p = {0..<n}"
  shows "length p = n"
  using assms distinct_card [of p] by simp

text \<open>
  Claim C6. For a dataset of at least two rows and a generator whose output for
  seed 49 is a permutation of the row indices, the split succeeds; the test
  partition has \<open>ceil(n / 4)\<close> rows and the train partition the others; the two
  index lists are free of repetitions, disjoint, and together are all row
  indices; the four returned arrays are the rows and labels at these indices;
  and the result depends on the generator only through its output for seed 49,
  so a second run with the same seed gives the same partition.
\<close>

theorem split_quarter_partition:
  assumes "length Data = length Label"
    and "2 \<le> length Data"
    and "distinct (permutation 49 (length Data))"
    and "set (permutation 49 (length Data)) = {0..<length Data}"
  shows "\<exists>ind_train ind_test.
       split_indices permutation (length Data) (1 / 4) 49 = Inr (ind_train, ind_test)
     \<and> length ind_test = (length Data + 3) div 4
     \<and> length ind_train = length Data - (length Data + 3) div 4
     \<and> set ind_train \<inter> set ind_test = {}
     \<and> set ind_train \<union> set ind_test = {0..<length Data}
     \<and> distinct ind_train \<and> distinct ind_test
     \<and> split_dataset permutation Data Label
         = Inr (map (\<lambda>i. Data ! i) ind_train, map (\<lambda>i. Data ! i) ind_test,
                map (\<lambda>i. Label ! i) ind_train, map (\<lambda>i. Label ! i) ind_test)
     \<and> (\<forall>permutation'. permutation' 49 (length Data) = permutation 49 (length Data)
           \<longrightarrow> split_dataset permutation' Data Label = split_dataset permutation Data Label)"
proof -
  let ?n = "length Data"
  let ?k = "(?n + 3) div 4"
  let ?p = "permutation 49 ?n"
  have lp: "length ?p = ?n" using assms(3,4) by (rule perm_length)
  have k: "?k < ?n" "0 < ?n" using assms(2) by auto
  have si: "split_indices q ?n (1 / 4) 49 = Inr (drop ?k (q 49 ?n), take ?k (q 49 ?n))"
    if "length (q 49 ?n) = ?n" for q
    using k that by (simp add: split_indices_def n_test_quarter' Let_def)
  have sd: "split_dataset q Data Label
      = Inr (map (\<lambda>i. Data ! i) (drop ?k (q 49 ?n)), map (\<lambda>i. Data ! i) (take ?k (q 49 ?n)),
             map (\<lambda>i. Label ! i) (drop ?k (q 49 ?n)), map (\<lambda>i. Label ! i) (take ?k (q 49 ?n)))"
    if "length (q 49 ?n) = ?n" for q
    using si [of q, OF that] assms(1) by (simp add: split_dataset_def train_test_split_def)
  have d: "distinct (take ?k ?p @ drop ?k ?p)" using assms(3) by simp
  have s: "set (take ?k ?p) \<union> set (drop ?k ?p) = {0..<?n}"
    using assms(4) set_append [of "take ?k ?p" "drop ?k ?p"] by simp
  show ?thesis
  proof (rule exI [of _ "drop ?k ?p"], rule exI [of _ "take ?k ?p"], intro conjI allI impI)
    show "split_indices permutation ?n (1 / 4) 49 = Inr (drop ?k ?p, take ?k ?p)"
      using si [of permutation, OF lp] .
    show "length (take ?k ?p) = ?k" using lp k by simp
    show "length (drop ?k ?p) = ?n - ?k" using lp by simp
    show "set (drop ?k ?p) \<inter> set (take ?k ?p) = {}" using d by (auto simp only: distinct_append)
    show "set (drop ?k ?p) \<union> set (take ?k ?p) = {0..<?n}" using s by (simp only: Un_commute)
    show "distinct (drop ?k ?p)" using assms(3) by (rule distinct_drop)
    show "distinct (take ?k ?p)" using assms(3) by (rule distinct_take)
    show "split_dataset permutation Data Label
         = Inr (map (\<lambda>i. Data ! i) (drop ?k ?p), map (\<lambda>i. Data ! i) (take ?k ?p),
                map (\<lambda>i. Label ! i) (drop ?k ?p), map (\<lambda>i. Label ! i) (take ?k ?p))"
      using sd [of permutation, OF lp] .
  next
    fix q :: "nat \<Rightarrow> nat \<Rightarrow> nat list"
    assume q: "q 49 ?n = ?p"
    then have "length (q 49 ?n) = ?n" using lp by simp
    from sd [of q, OF this] sd [of permutation, OF lp] q
    show "split_dataset q Data Label = split_dataset permutation Data Label" by simp
  qed
qed

theorem split_quarter_partition_witness:
  "\<exists>ind_train ind_test.
       split_indices (\<lambda>seed n. [3, 1, 4, 0, 2]) 5 (1 / 4) 49 = Inr (ind_train, ind_test)
     \<and> length ind_test = 2 \<and> length ind_train = 3
     \<and> set ind_train \<inter> set ind_test = {}
     \<and> set ind_train \<union> set ind_test = {0..<5}"
proof -
  let ?Data = "[[10], [11], [12], [13], [14]] :: picture list"
  let ?Label = "[0, 1, 2, 7, 7] :: nat list"
  let ?perm = "\<lambda>(seed::nat) (n::nat). [3, 1, 4, 0, 2::nat]"
  have 1: "length ?Data = length ?Label" by simp
  have 2: "2 \<le> length ?Data" by simp
  have 3: "distinct (?perm 49 (length ?Data))" by simp
  have 4: "set (?perm 49 (length ?Data)) = {0..<length ?Data}" by auto
  have len5: "length ?Data = 5" by simp
  from split_quarter_partition [of ?Data ?Label ?perm, OF 1 2 3 4]
  obtain ind_train ind_test where
    r: "split_indices ?perm (length ?Data) (1 / 4) 49 = Inr (ind_train, ind_test)"
       "length ind_test = (length ?Data + 3) div 4"
       "length ind_train = length ?Data - (length ?Data + 3) div 4"
       "set ind_train \<inter> set ind_test = {}"
       "set ind_train \<union> set ind_test = {0..<length ?Data}"
    by blast
  have a: "split_indices ?perm 5 (1 / 4) 49 = Inr (ind_train, ind_test)"
    using r(1) by (simp only: len5)
  have b: "length ind_test = 2" using r(2) unfolding len5 by simp
  have c: "length ind_train = 3" using r(3) unfolding len5 by simp
  have d: "set ind_train \<union> set ind_test = {0..<5}" using r(5) by (simp only: len5)
  from a b c r(4) d show ?thesis by blast
qed

section \<open>Class balancing\<close>

lemma count_list_replicate: "count_list (replicate n x) c = (if x = c then n else 0)"
  by (induction n) auto

lemma max_class_count_Max:
  assumes "y \<noteq> []"
  shows "max_class_count y = Max (count_list y ` set y)"
proof -
  let ?S = "count_list y ` set y"
  have ne: "?S \<noteq> {}" using assms by simp
  have "max_class_count y = Max (set (0 # map (count_list y) (remdups y)))"
    unfolding max_class_count_def by (simp only: Max.set_eq_fold)
  also have "\<dots> = Max (insert 0 ?S)" by simp
  also have "\<dots> = max 0 (Max ?S)" using ne by (intro Max_insert) simp_all
  finally show ?thesis by simp
qed

lemma count_le_max_class_count: "count_list y c \<le> max_class_count y"
proof (cases "c \<in> set y")
  case True
  then have "y \<noteq> []" by auto
  then show ?thesis using True by (simp add: max_class_count_Max)
next
  case False
  then show ?thesis by simp
qed

lemma class_indices_set: "set (class_indices y c) = {i. i < length y \<and> y ! i = c}"
  by (auto simp: class_indices_def)

lemma class_indices_nonempty: "c \<in> set y \<Longrightarrow> class_indices y c \<noteq> []"
proof -
  assume "c \<in> set y"
  then obtain i where "i < length y" "y ! i = c" by (auto simp: in_set_conv_nth)
  then have "i \<in> set (class_indices y c)" by (simp add: class_indices_set)
  then show ?thesis by auto
qed

lemma choice_subset:
  assumes "xs \<noteq> []"
  shows "set (choice rng pos xs k) \<subseteq> set xs"
  using assms by (auto simp: choice_def)

lemma length_choice: "length (choice rng pos xs k) = k"
  by (simp add: choice_def)

lemma choice_labels:
  assumes "c \<in> set y"
  shows "map (\<lambda>i. y ! i) (choice rng pos (class_indices y c) k) = replicate k c"
proof -
  have sub: "set (choice rng pos (class_indices y c) k) \<subseteq> {i. i < length y \<and> y ! i = c}"
    using choice_subset [OF class_indices_nonempty [OF assms]] class_indices_set by blast
  have "map (\<lambda>i. y ! i) (choice rng pos (class_indices y c) k)
        = map (\<lambda>i. c) (choice rng pos (class_indices y c) k)"
    using sub by (intro map_cong) auto
  then show ?thesis by (simp add: map_replicate_const length_choice)
qed

lemma resample_classes_labels:
  assumes "set cs \<subseteq> set y"
  shows "map (\<lambda>i. y ! i) (resample_classes rng pos y cs)
         = concat (map (\<lambda>c. replicate (max_class_count y - count_list y c) c) cs)"
  using assms
proof (induction cs arbitrary: pos)
  case Nil
  show ?case by simp
next
  case (Cons c cs)
  then show ?case by (simp add: Let_def choice_labels)
qed

lemma resample_classes_range:
  assumes "set cs \<subseteq> set y"
  shows "set (resample_classes rng pos y cs) \<subseteq> {0..<length y}"
  using assms
proof (induction cs arbitrary: pos)
  case Nil
  show ?case by simp
next
  case (Cons c cs)
  have "set (choice rng pos (class_indices y c) k) \<subseteq> {0..<length y}" for k
    using choice_subset [OF class_indices_nonempty, of c y rng pos k] Cons.prems
      class_indices_set [of y c] by auto
  with Cons show ?case by (simp add: Let_def)
qed

lemma count_concat_replicate:
  assumes "distinct cs"
  shows "count_list (concat (map (\<lambda>c. replicate (f c) c) cs)) c = (if c \<in> set cs then f c else 0)"
  using assms by (induction cs) (auto simp: count_list_replicate)

lemma fit_resample_counts:
  assumes "length X = length y"
  shows "\<exists>X' y'. fit_resample rng X y = Inr (X', y')
     \<and> length X' = length y'
     \<and> take (length y) X' = X \<and> take (length y) y' = y
     \<and> (\<forall>i<length y'. \<exists>j<length y. X' ! i = X ! j \<and> y' ! i = y ! j)
     \<and> set y' = set y
     \<and> (\<forall>c\<in>set y. count_list y' c = max_class_count y)"
proof -
  let ?M = "max_class_count y"
  let ?below = "filter (\<lambda>c. count_list y c < ?M) (sort (remdups y))"
  let ?idx = "[0..<length y] @ resample_classes rng 0 y ?below"
  let ?X' = "map (\<lambda>i. X ! i) ?idx"
  let ?y' = "map (\<lambda>i. y ! i) ?idx"
  have sub: "set ?below \<subseteq> set y" by auto
  have dist: "distinct ?below" by simp
  have r: "fit_resample rng X y = Inr (?X', ?y')"
    using assms by (simp add: fit_resample_def Let_def)
  have rng: "set ?idx \<subseteq> {0..<length y}"
    using resample_classes_range [OF sub, of rng 0] by auto
  have y': "?y' = y @ concat (map (\<lambda>c. replicate (?M - count_list y c) c) ?below)"
    using resample_classes_labels [OF sub, of rng 0] by (simp add: map_nth)
  have X0: "map (\<lambda>i. X ! i) [0..<length y] = X"
    using assms map_nth [of X] by simp
  have tX: "take (length y) ?X' = X" using X0 assms by simp
  have ty: "take (length y) ?y' = y" by (simp add: map_nth)
  have rows: "\<forall>i<length ?y'. \<exists>j<length y. ?X' ! i = X ! j \<and> ?y' ! i = y ! j"
  proof (intro allI impI)
    fix i assume i: "i < length ?y'"
    then have "?idx ! i \<in> set ?idx" by (simp only: length_map nth_mem)
    then have "?idx ! i < length y" using rng by auto
    moreover have "?X' ! i = X ! (?idx ! i)" "?y' ! i = y ! (?idx ! i)"
      using i by (simp_all only: length_map nth_map)
    ultimately show "\<exists>j<length y. ?X' ! i = X ! j \<and> ?y' ! i = y ! j" by blast
  qed
  have sety: "set ?y' = set y"
  proof
    show "set ?y' \<subseteq> set y"
    proof
      fix v assume "v \<in> set ?y'"
      then obtain i where "i < length ?y'" "?y' ! i = v" by (auto simp only: in_set_conv_nth)
      with rows obtain j where "j < length y" "v = y ! j" by metis
      then show "v \<in> set y" by simp
    qed
    show "set y \<subseteq> set ?y'" using ty by (metis set_take_subset)
  qed
  have cnt: "\<forall>c\<in>set y. count_list ?y' c = ?M"
  proof
    fix c assume c: "c \<in> set y"
    have le: "count_list y c \<le> ?M" by (rule count_le_max_class_count)
    have "count_list ?y' c = count_list y c + (if c \<in> set ?below then ?M - count_list y c else 0)"
      unfolding y' by (simp only: count_list_append count_concat_replicate [OF dist])
    also have "\<dots> = ?M" using le c by auto
    finally show "count_list ?y' c = ?M" .
  qed
  from r tX ty rows sety cnt show ?thesis
    by (intro exI [of _ ?X'] exI [of _ ?y']) (simp only: length_map simp_thms)
qed


lemma load_non_cancer_labels:
  assumes "load_non_cancer open_resize fs acc_list acc_label = Inr (nc_list, nc_label)"
  shows "nc_label = acc_label @ replicate (length fs) 7
     \<and> length nc_list = length acc_list + length fs"
  using assms
proof (induction fs arbitrary: acc_list acc_label)
  case Nil
  then show ?case by simp
next
  case (Cons f fs)
  from Cons.prems obtain img where
    o: "open_resize f = Some img"
    and r: "load_non_cancer open_resize fs (acc_list @ [img]) (acc_label @ [7]) = Inr (nc_list, nc_label)"
    by (auto split: option.splits)
  from Cons.IH [OF r] show ?case by (simp add: replicate_app_Cons_same)
qed

lemma fold_snoc: "fold (\<lambda>x acc. acc @ [x]) xs acc = acc @ xs"
  by (induction xs arbitrary: acc) simp_all

lemma concat_pieces:
  assumes "\<forall>row\<in>set rows. length row = m"
  shows "length (concat rows) = length rows * m
     \<and> map (\<lambda>k. take m (drop (k * m) (concat rows))) [0..<length rows] = rows"
  using assms
proof (induction rows)
  case Nil
  show ?case by simp
next
  case (Cons r rs)
  have r: "length r = m" using Cons.prems by simp
  have ih: "length (concat rs) = length rs * m"
    "map (\<lambda>k. take m (drop (k * m) (concat rs))) [0..<length rs] = rs"
    using Cons by simp_all
  have u: "[0..<length (r # rs)] = 0 # map Suc [0..<length rs]"
    by (simp add: upt_conv_Cons map_Suc_upt del: upt_Suc)
  have s: "take m (drop (Suc k * m) (concat (r # rs))) = take m (drop (k * m) (concat rs))" for k
    using r by simp
  have z: "take m (drop (0 * m) (concat (r # rs))) = r" using r by simp
  have "map (\<lambda>k. take m (drop (k * m) (concat (r # rs)))) [0..<length (r # rs)]
      = take m (drop (0 * m) (concat (r # rs)))
        # map (\<lambda>k. take m (drop (Suc k * m) (concat (r # rs)))) [0..<length rs]"
    unfolding u by (simp only: list.map map_map comp_def)
  also have "\<dots> = r # map (\<lambda>k. take m (drop (k * m) (concat rs))) [0..<length rs]"
    by (simp only: s z)
  also have "\<dots> = r # rs" by (simp only: ih(2))
  finally show ?case using r ih(1) by simp
qed

lemma reshape_rows:
  assumes "\<forall>row\<in>set rows. length row = 2352"
  shows "reshape_28_28_3 rows = Inr (map (\<lambda>row. ([28, 28, 3], row)) rows)"
proof -
  from concat_pieces [OF assms] have
    l: "length (concat rows) = length rows * 2352"
    and p: "map (\<lambda>k. take 2352 (drop (k * 2352) (concat rows))) [0..<length rows] = rows"
    by simp_all
  have same: "list_all (\<lambda>row. length row = length (hd rows)) rows"
  proof (cases rows)
    case Nil
    then show ?thesis by simp
  next
    case (Cons r rs)
    then show ?thesis using assms by (simp add: list_all_iff)
  qed
  have "map (\<lambda>k. ([28, 28, 3], take 2352 (drop (k * 2352) (concat rows)))) [0..<length rows]
      = map (\<lambda>row. ([28, 28, 3], row))
          (map (\<lambda>k. take 2352 (drop (k * 2352) (concat rows))) [0..<length rows])"
    by (simp only: map_map comp_def)
  also have "\<dots> = map (\<lambda>row. ([28, 28, 3], row)) rows" by (simp only: p)
  finally show ?thesis using same l by (simp add: reshape_28_28_3_def Let_def)
qed

lemma reshape_raises:
  assumes "length (concat rows) mod 2352 \<noteq> 0"
  shows "reshape_28_28_3 rows = Inl ValueError"
  using assms by (simp add: reshape_28_28_3_def Let_def)

lemma np_array_same_shape:
  assumes "\<forall>a\<in>set arrays. fst a = sh"
  shows "np_array arrays = Inr arrays"
  using assms by (cases arrays) (simp_all add: np_array_def list_all_iff)

lemma np_array_raises:
  assumes "fst a = sh" and "b \<in> set rest" and "fst b \<noteq> sh"
  shows "np_array (a # rest) = Inl ValueError"
  using assms by (auto simp add: np_array_def list_all_iff)


lemma balanced_rows:
  assumes "length Data = length Label" and "\<forall>row\<in>set Data. length row = 2352"
  shows "\<exists>X' y'. fit_resample rng Data Label = Inr (X', y')
     \<and> length X' = length y'
     \<and> take (length Label) X' = Data
     \<and> (\<forall>i<length y'. \<exists>j<length Label. X' ! i = Data ! j \<and> y' ! i = Label ! j)
     \<and> set y' = set Label
     \<and> (\<forall>c\<in>set Label. count_list y' c = max_class_count Label)
     \<and> (\<forall>row\<in>set X'. length row = 2352)"
proof -
  from fit_resample_counts [OF assms(1), of rng] obtain X' y' where
    f: "fit_resample rng Data Label = Inr (X', y')" "length X' = length y'"
       "take (length Label) X' = Data"
       "\<forall>i<length y'. \<exists>j<length Label. X' ! i = Data ! j \<and> y' ! i = Label ! j"
       "set y' = set Label" "\<forall>c\<in>set Label. count_list y' c = max_class_count Label"
    by blast
  have "\<forall>row\<in>set X'. length row = 2352"
  proof
    fix row assume "row \<in> set X'"
    then obtain i where i: "i < length X'" "X' ! i = row" by (auto simp: in_set_conv_nth)
    with f(2,4) obtain j where j: "j < length Label" "row = Data ! j" by metis
    then have "row \<in> set Data" using assms(1) by simp
    then show "length row = 2352" using assms(2) by blast
  qed
  with f show ?thesis by blast
qed

text \<open>
  Claim C2. For a tabular source of rows with 2352 pixel columns and labels among
  0 to 6, and a readable non-cancer directory of RGB pictures, the combined
  dataset is built; every class that occurs in the tabular labels ends with as
  many rows as the most frequent class had before balancing; class 7 ends with
  exactly the arrays loaded from the directory, one for each file; and every
  entry of the result is a row of the tabular source, as a 28 by 28 by 3 array,
  with its own label (resampling repeats rows, it makes none up) or an array of
  the directory with label 7. With counts 100, 10, 5, 1, 1, 1, 1 all seven
  counts become 100.
\<close>

theorem balance_then_append:
  assumes "length Data = length Label"
    and "\<forall>row\<in>set Data. length row = 2352"
    and "set Label \<subseteq> {0..<7}"
    and "load_non_cancer open_resize files [] [] = Inr (nc_data_list, nc_data_label)"
    and "\<forall>a\<in>set nc_data_list. fst a = [28, 28, 3]"
  shows "\<exists>Data' Label'. combine rng Data Label nc_data_list nc_data_label = Inr (Data', Label')
     \<and> length Data' = length Label'
     \<and> (\<forall>c\<in>set Label. count_list Label' c = Max (count_list Label ` set Label))
     \<and> count_list nc_data_label 7 = length files
     \<and> count_list Label' 7 = count_list nc_data_label 7
     \<and> (\<forall>i<length Label'.
           (\<exists>j<length Label. Data' ! i = ([28, 28, 3], Data ! j) \<and> Label' ! i = Label ! j)
         \<or> (\<exists>j<length nc_data_list. Data' ! i = nc_data_list ! j \<and> Label' ! i = 7))"
proof -
  from balanced_rows [OF assms(1,2), of rng] obtain X' y' where
    f: "fit_resample rng Data Label = Inr (X', y')" "length X' = length y'"
       "set y' = set Label" "\<forall>c\<in>set Label. count_list y' c = max_class_count Label"
       "\<forall>i<length y'. \<exists>j<length Label. X' ! i = Data ! j \<and> y' ! i = Label ! j"
       "\<forall>row\<in>set X'. length row = 2352"
    by blast
  let ?X = "map (\<lambda>row. ([28, 28, 3], row)) X'"
  have rs: "reshape_28_28_3 X' = Inr ?X" using f(6) by (rule reshape_rows)
  from load_non_cancer_labels [OF assms(4)] have
    nc: "nc_data_label = replicate (length files) 7" "length nc_data_list = length files"
    by simp_all
  have "\<forall>a\<in>set (?X @ nc_data_list). fst a = [28, 28, 3]" using assms(5) by auto
  then have st: "np_array (?X @ nc_data_list) = Inr (?X @ nc_data_list)"
    by (rule np_array_same_shape)
  have c: "combine rng Data Label nc_data_list nc_data_label
             = Inr (?X @ nc_data_list, y' @ nc_data_label)"
    by (simp add: combine_def f(1) rs fold_snoc st Let_def)
  have 1: "length (?X @ nc_data_list) = length (y' @ nc_data_label)"
    using f(2) nc by simp
  have 2: "\<forall>c\<in>set Label. count_list (y' @ nc_data_label) c = Max (count_list Label ` set Label)"
  proof
    fix c assume c: "c \<in> set Label"
    then have ne: "Label \<noteq> []" by auto
    have "c \<noteq> 7" using c assms(3) by auto
    then have "count_list nc_data_label c = 0" by (simp add: nc(1) count_list_replicate)
    then show "count_list (y' @ nc_data_label) c = Max (count_list Label ` set Label)"
      using f(4) c max_class_count_Max [OF ne] by simp
  qed
  have 3: "count_list nc_data_label 7 = length files"
    by (simp add: nc(1) count_list_replicate)
  have "7 \<notin> set y'" using f(3) assms(3) by auto
  then have 4: "count_list (y' @ nc_data_label) 7 = count_list nc_data_label 7" by simp
  have 5: "\<forall>i<length (y' @ nc_data_label).
           (\<exists>j<length Label. (?X @ nc_data_list) ! i = ([28, 28, 3], Data ! j)
               \<and> (y' @ nc_data_label) ! i = Label ! j)
         \<or> (\<exists>j<length nc_data_list. (?X @ nc_data_list) ! i = nc_data_list ! j
               \<and> (y' @ nc_data_label) ! i = 7)"
  proof (intro allI impI)
    fix i assume i: "i < length (y' @ nc_data_label)"
    show "(\<exists>j<length Label. (?X @ nc_data_list) ! i = ([28, 28, 3], Data ! j)
               \<and> (y' @ nc_data_label) ! i = Label ! j)
         \<or> (\<exists>j<length nc_data_list. (?X @ nc_data_list) ! i = nc_data_list ! j
               \<and> (y' @ nc_data_label) ! i = 7)"
    proof (cases "i < length y'")
      case True
      then have "(?X @ nc_data_list) ! i = ([28, 28, 3], X' ! i)" "(y' @ nc_data_label) ! i = y' ! i"
        using f(2) by (simp_all add: nth_append)
      with f(5) True show ?thesis by metis
    next
      case False
      let ?j = "i - length y'"
      have j: "?j < length nc_data_list" using i False nc by simp
      have "(?X @ nc_data_list) ! i = nc_data_list ! ?j" using False f(2) by (simp add: nth_append)
      moreover have "(y' @ nc_data_label) ! i = 7" using False j nc by (simp add: nth_append)
      ultimately show ?thesis using j by blast
    qed
  qed
  from c 1 2 3 4 5 show ?thesis by blast
qed

theorem balance_then_append_witness:
  "\<exists>Data' Label'.
     combine (\<lambda>i. i) (replicate 119 (replicate 2352 0))
       (replicate 100 0 @ replicate 10 1 @ replicate 5 2 @ [3, 4, 5, 6])
       [([28, 28, 3], replicate 2352 0), ([28, 28, 3], replicate 2352 0)] [7, 7]
       = Inr (Data', Label')
     \<and> count_list Label' 0 = 100 \<and> count_list Label' 1 = 100 \<and> count_list Label' 2 = 100
     \<and> count_list Label' 3 = 100 \<and> count_list Label' 4 = 100 \<and> count_list Label' 5 = 100
     \<and> count_list Label' 6 = 100 \<and> count_list Label' 7 = 2"
proof -
  let ?Label = "replicate 100 0 @ replicate 10 1 @ replicate 5 2 @ [3, 4, 5, 6] :: nat list"
  let ?Data = "replicate 119 (replicate 2352 0) :: nat list list"
  let ?a = "([28, 28, 3], replicate 2352 0) :: ndarray"
  let ?open = "\<lambda>content :: bytes. Some ?a"
  have 1: "length ?Data = length ?Label" by simp
  have 2: "\<forall>row\<in>set ?Data. length row = 2352" by simp
  have s: "set ?Label = {0, 1, 2, 3, 4, 5, 6}" by auto
  have 3: "set ?Label \<subseteq> {0..<7}" unfolding s by simp
  have 4: "load_non_cancer ?open [[1], [2]] [] [] = Inr ([?a, ?a], [7, 7])" by simp
  have 5: "\<forall>a\<in>set [?a, ?a]. fst a = [28, 28, 3]" by simp
  have m: "Max (count_list ?Label ` {0, 1, 2, 3, 4, 5, 6}) = 100"
    by (simp add: count_list_replicate)
  from balance_then_append [OF 1 2 3 4 5, of "\<lambda>i. i"] obtain Data' Label' where
    r: "combine (\<lambda>i. i) ?Data ?Label [?a, ?a] [7, 7] = Inr (Data', Label')"
       "\<forall>c\<in>set ?Label. count_list Label' c = Max (count_list ?Label ` set ?Label)"
       "count_list [7, 7::nat] 7 = length [[1], [2::nat]]"
       "count_list Label' 7 = count_list [7, 7::nat] 7"
    by blast
  have c: "\<forall>c\<in>{0, 1, 2, 3, 4, 5, 6}. count_list Label' c = 100"
    using r(2) unfolding s m .
  have 7: "count_list Label' 7 = 2" using r(3,4) by simp
  from r(1) c 7 show ?thesis by blast
qed

text \<open>
  Where the script raises, so does the model: a directory picture that is not
  RGB cannot be stacked with the tabular arrays (line 85), and a table whose
  values do not fill arrays of 2352 values cannot be reshaped (line 69).
\<close>

lemma combine_raises_on_other_shape:
  assumes "length Data = length Label" and "Data \<noteq> []"
    and "\<forall>row\<in>set Data. length row = 2352"
    and "a \<in> set nc_data_list" and "fst a \<noteq> [28, 28, 3]"
  shows "combine rng Data Label nc_data_list nc_data_label = Inl ValueError"
proof -
  from balanced_rows [OF assms(1,3), of rng] obtain X' y' where
    f: "fit_resample rng Data Label = Inr (X', y')" "take (length Label) X' = Data"
       "\<forall>row\<in>set X'. length row = 2352"
    by blast
  have "X' \<noteq> []" using f(2) assms(2) by auto
  then obtain x xs where x: "X' = x # xs" by (cases X') auto
  have rs: "reshape_28_28_3 (x # xs) = Inr (([28, 28, 3], x) # map (\<lambda>row. ([28, 28, 3], row)) xs)"
    using reshape_rows [OF f(3)] x by simp
  have "np_array (([28, 28, 3], x) # (map (\<lambda>row. ([28, 28, 3], row)) xs @ nc_data_list))
          = Inl ValueError"
    by (rule np_array_raises [of _ "[28, 28, 3]" a]) (use assms(4,5) in simp_all)
  then show ?thesis by (simp add: combine_def f(1) rs fold_snoc x Let_def)
qed

lemma combine_raises_on_other_width:
  assumes "length Data = length Label" and "Data \<noteq> []"
    and "\<forall>row\<in>set Data. length row = w" and "0 < w" and "w < 2352"
    and "length Label = 1"
  shows "combine rng Data Label nc_data_list nc_data_label = Inl ValueError"
proof -
  from fit_resample_counts [OF assms(1), of rng] obtain X' y' where
    f: "fit_resample rng Data Label = Inr (X', y')" "length X' = length y'"
       "take (length Label) X' = Data"
       "\<forall>c\<in>set Label. count_list y' c = max_class_count Label"
       "set y' = set Label"
    by blast
  obtain r where d: "Data = [r]" using assms(1,6) by (cases Data) auto
  obtain l where l: "Label = [l]" using assms(6) by (cases Label) auto
  have "max_class_count Label = 1" by (simp add: l max_class_count_def)
  then have "count_list y' l = 1" using f(4) l by simp
  moreover have "set y' = {l}" using f(5) l by simp
  ultimately have "length y' = 1"
    using sum_count_set [of y' "{l}"] by simp
  then have "X' = [r]" using f(2,3) d l by (cases X') auto
  moreover have "length r = w" using assms(3) d by simp
  ultimately have "length (concat X') mod 2352 \<noteq> 0" using assms(4,5) by simp
  then have "reshape_28_28_3 X' = Inl ValueError" by (rule reshape_raises)
  then show ?thesis by (simp add: combine_def f(1))
qed

end
